theory Spec2Isabelle
  imports Complex_Main
begin

section \<open>Data model\<close>

text \<open>
  Identifiers are MongoDB ObjectIds; the handlers compare them through their
  canonical hexadecimal string (\<^verbatim>\<open>toString()\<close>) and splice them into cache keys, so
  an identifier is modelled as that string, and the ids that arrive in a request are taken
  to be written in that form. The field \<^verbatim>\<open>_id\<close> is \<open>v_id\<close>, \<open>d_id\<close>, \<open>vh_id\<close> or
  \<open>doc_id\<close>, and \<^verbatim>\<open>vendor\<close> is \<open>d_vendor\<close>, \<open>vh_vendor\<close> or \<open>doc_vendor\<close>, by
  collection.
\<close>

type_synonym oid = string

datatype vendor_type = SUPER | REGIONAL | CITY | SUB | LOCAL

record operating_area =
  city :: "string option"
  zones :: "string list option"
  zone :: "string option"
  pincodes :: "string list"

record vendor =
  v_id :: oid
  v_name :: string
  v_email :: string
  vendorType :: vendor_type
  parentVendor :: "oid option"
  permissions :: "string list"
  operatingArea :: "operating_area option"
  isActive :: bool

text \<open>
  A collection is the list of its documents in natural order.
  \<^verbatim>\<open>Vendor.findById(id)\<close> yields the first document with that \<^verbatim>\<open>_id\<close> or null.
\<close>

definition findById :: "vendor list \<Rightarrow> oid \<Rightarrow> vendor option" where
  "findById st i = find (\<lambda>v. v_id v = i) st"

text \<open>\<^verbatim>\<open>vendor.save()\<close> of a document read from the collection replaces it by its \<^verbatim>\<open>_id\<close>.\<close>

definition saveVendor :: "vendor list \<Rightarrow> vendor \<Rightarrow> vendor list" where
  "saveVendor st v = map (\<lambda>x. if v_id x = v_id v then v else x) st"

datatype error = TypeError string | Error string

section \<open>Cache service\<close>

text \<open>
  The cache maps a key to the JSON text stored under it. A stored text denotes either
  \<^verbatim>\<open>null\<close> or a value, so a cache is a map from keys to optional values: \<open>c k = None\<close>
  when the key is absent, \<open>c k = Some None\<close> when the text \<^verbatim>\<open>null\<close> is stored. Expiry of
  entries and a failing connection (which the service swallows) are not modelled.
\<close>

type_synonym 'v cache = "string \<Rightarrow> 'v option option"

text \<open>
  What an \<^verbatim>\<open>if\<close> sees of a reference: a plain value (\<^verbatim>\<open>null\<close> or an object), or a promise
  object together with the value it settles to. \<open>truthy\<close> is ToBoolean on such a
  reference: \<^verbatim>\<open>null\<close> is falsy, every object is truthy, and a promise is an object.
  \<open>settle\<close> is what \<^verbatim>\<open>await\<close>, or returning the reference from an \<^verbatim>\<open>async\<close> function,
  yields.
\<close>

datatype 'a js_ref = Plain "'a option" | Promise "'a option"

fun truthy :: "'a js_ref \<Rightarrow> bool" where
  "truthy (Plain None) = False"
| "truthy (Plain (Some x)) = True"
| "truthy (Promise p) = True"

fun settle :: "'a js_ref \<Rightarrow> 'a option" where
  "settle (Plain v) = v"
| "settle (Promise v) = v"

text \<open>
  \<^verbatim>\<open>async get(key)\<close>: \<^verbatim>\<open>value ? JSON.parse(value) : null\<close>, delivered through a promise.
\<close>

definition cacheService_get :: "'v cache \<Rightarrow> string \<Rightarrow> 'v js_ref" where
  "cacheService_get c key = Promise (case c key of None \<Rightarrow> None | Some v \<Rightarrow> v)"

definition cacheService_set :: "'v cache \<Rightarrow> string \<Rightarrow> 'v option \<Rightarrow> 'v cache" where
  "cacheService_set c key v = c(key := Some v)"

definition cacheService_del :: "'v cache \<Rightarrow> string \<Rightarrow> 'v cache" where
  "cacheService_del c key = c(key := None)"

text \<open>An ObjectId or \<^verbatim>\<open>null\<close> spliced into a template string.\<close>

definition idString :: "oid option \<Rightarrow> string" where
  "idString i = (case i of None \<Rightarrow> ''null'' | Some x \<Rightarrow> x)"

text \<open>The template string \<^verbatim>\<open>vendor_hierarchy_${id}\<close>.\<close>

definition hierarchyKey :: "string \<Rightarrow> string" where
  "hierarchyKey i = ''vendor_hierarchy_'' @ i"

datatype hnode =
  HNode (n_id: oid) (n_name: string) (n_type: vendor_type) (n_children: "hnode list")

datatype hierarchy = Hierarchy (h_vendor: hnode)

text \<open>
  \<^verbatim>\<open>Vendor.find({ parentVendor: vendorId, vendorType: t })\<close>.
\<close>

definition findChildren :: "vendor list \<Rightarrow> oid \<Rightarrow> vendor_type \<Rightarrow> vendor list" where
  "findChildren st vendorId t =
     filter (\<lambda>v. parentVendor v = Some vendorId \<and> vendorType v = t) st"

text \<open>
  The loops of \<^verbatim>\<open>buildVendorHierarchy\<close> that build a child and push its \<^verbatim>\<open>.vendor\<close>:
  reading \<^verbatim>\<open>.vendor\<close> of \<^verbatim>\<open>null\<close> throws, and an exception ends the loop.
\<close>

fun pushEach ::
  "(vendor \<Rightarrow> (error + hierarchy option) option) \<Rightarrow> vendor list \<Rightarrow> hnode list \<Rightarrow>
     (error + hnode list) option" where
  "pushEach build [] children = Some (Inr children)"
| "pushEach build (v # vs) children =
     Option.bind (build v)
       (\<lambda>r. case r of
          Inl e \<Rightarrow> Some (Inl e)
        | Inr None \<Rightarrow> Some (Inl (TypeError ''Cannot read properties of null''))
        | Inr (Some h) \<Rightarrow> pushEach build vs (children @ [h_vendor h]))"

lemma pushEach_mono [partial_function_mono]:
  assumes "\<And>v. mono_option (\<lambda>f. B f v)"
  shows "mono_option (\<lambda>f. pushEach (B f) vs children)"
proof (induction vs arbitrary: children)
  case Nil
  show ?case by (simp add: option.const_mono)
next
  case (Cons v vs)
  show ?case
    unfolding pushEach.simps
  proof (rule bind_mono[OF assms])
    fix r :: "error + hierarchy option"
    show "mono_option (\<lambda>f. case r of
          Inl e \<Rightarrow> Some (Inl e)
        | Inr None \<Rightarrow> Some (Inl (TypeError ''Cannot read properties of null''))
        | Inr (Some h) \<Rightarrow> pushEach (B f) vs (children @ [h_vendor h]))"
    proof (cases r)
      case (Inl e)
      then show ?thesis by (simp add: option.const_mono)
    next
      case (Inr x)
      then show ?thesis by (cases x) (simp_all add: option.const_mono Cons.IH)
    qed
  qed
qed

text \<open>
  \<^verbatim>\<open>buildVendorHierarchy(vendorId)\<close>: \<^verbatim>\<open>null\<close> for a missing vendor; a SUPER vendor
  gets the hierarchies of its CITY children, a CITY vendor those of its SUB children
  followed by its LOCAL children as leaves, any other vendor no children. The outer
  \<open>None\<close> stands for a call that never returns.
\<close>

partial_function (option) buildVendorHierarchy ::
  "vendor list \<Rightarrow> oid \<Rightarrow> (error + hierarchy option) option" where
  "buildVendorHierarchy st vendorId =
     (case findById st vendorId of
        None \<Rightarrow> Some (Inr None)
      | Some vendor \<Rightarrow>
          (if vendorType vendor = SUPER then
             Option.bind
               (pushEach (\<lambda>cityVendor. buildVendorHierarchy st (v_id cityVendor))
                  (findChildren st vendorId CITY) [])
               (\<lambda>r. Some (map_sum id
                  (\<lambda>children. Some (Hierarchy
                     (HNode (v_id vendor) (v_name vendor) (vendorType vendor) children))) r))
           else if vendorType vendor = CITY then
             Option.bind
               (pushEach (\<lambda>subVendor. buildVendorHierarchy st (v_id subVendor))
                  (findChildren st vendorId SUB) [])
               (\<lambda>r. Some (map_sum id
                  (\<lambda>children. Some (Hierarchy
                     (HNode (v_id vendor) (v_name vendor) (vendorType vendor)
                        (children @ map (\<lambda>localVendor.
                            HNode (v_id localVendor) (v_name localVendor)
                              (vendorType localVendor) [])
                          (findChildren st vendorId LOCAL))))) r))
           else Some (Inr (Some (Hierarchy
                  (HNode (v_id vendor) (v_name vendor) (vendorType vendor) []))))))"

declare buildVendorHierarchy.simps [code]

text \<open>
  \<^verbatim>\<open>cacheVendorHierarchy(vendorId)\<close>: build, store under the hierarchy key, return.
\<close>

definition cacheVendorHierarchy ::
  "vendor list \<Rightarrow> hierarchy cache \<Rightarrow> oid \<Rightarrow>
     ((error + hierarchy option) \<times> hierarchy cache) option" where
  "cacheVendorHierarchy st c vendorId =
     Option.bind (buildVendorHierarchy st vendorId)
       (\<lambda>r. case r of
          Inl e \<Rightarrow> Some (Inl e, c)
        | Inr hierarchy \<Rightarrow>
            Some (Inr hierarchy,
                  cacheService_set c (hierarchyKey vendorId) hierarchy))"

section \<open>Vendor hierarchy service\<close>

text \<open>
  \<^verbatim>\<open>getVendorHierarchy(vendorId)\<close>: the result of \<^verbatim>\<open>cacheService.get\<close> is tested as it
  is returned, without \<^verbatim>\<open>await\<close>.
\<close>

definition getVendorHierarchy ::
  "vendor list \<Rightarrow> hierarchy cache \<Rightarrow> oid \<Rightarrow>
     ((error + hierarchy option) \<times> hierarchy cache) option" where
  "getVendorHierarchy st c vendorId =
     (let cachedHierarchy = cacheService_get c (hierarchyKey vendorId)
      in if truthy cachedHierarchy then Some (Inr (settle cachedHierarchy), c)
         else cacheVendorHierarchy st c vendorId)"

text \<open>
  \<^verbatim>\<open>validateHierarchy(vendorId, parentVendorId)\<close>: false when either vendor is
  missing, otherwise a switch on the parent's type.
\<close>

definition validateHierarchy :: "vendor list \<Rightarrow> oid \<Rightarrow> oid \<Rightarrow> bool" where
  "validateHierarchy st vendorId parentVendorId =
     (case findById st vendorId of
        None \<Rightarrow> False
      | Some vendor \<Rightarrow>
          (case findById st parentVendorId of
             None \<Rightarrow> False
           | Some parent \<Rightarrow>
               (case vendorType parent of
                  SUPER \<Rightarrow> vendorType vendor = CITY
                | CITY \<Rightarrow> vendorType vendor \<in> set [SUB, LOCAL]
                | SUB \<Rightarrow> vendorType vendor = LOCAL
                | _ \<Rightarrow> False)))"

text \<open>
  \<^verbatim>\<open>transferVendor(vendorId, newParentId)\<close>. The two \<^verbatim>\<open>cacheService.del\<close> calls are issued
  after \<^verbatim>\<open>vendor.parentVendor\<close> has been overwritten; they are taken to have completed
  when the function returns.
\<close>

definition transferVendor ::
  "vendor list \<Rightarrow> 'v cache \<Rightarrow> oid \<Rightarrow> oid \<Rightarrow> error + (vendor \<times> vendor list \<times> 'v cache)" where
  "transferVendor st c vendorId newParentId =
     (case findById st vendorId of
        None \<Rightarrow> Inl (Error ''Vendor or parent not found'')
      | Some vendor \<Rightarrow>
          (case findById st newParentId of
             None \<Rightarrow> Inl (Error ''Vendor or parent not found'')
           | Some newParent \<Rightarrow>
               if \<not> validateHierarchy st vendorId newParentId
               then Inl (Error ''Invalid vendor hierarchy'')
               else
                 let vendor' = vendor\<lparr>parentVendor := Some newParentId\<rparr>;
                     st' = saveVendor st vendor';
                     c1 = cacheService_del c
                            (hierarchyKey (idString (parentVendor vendor')));
                     c2 = cacheService_del c1 (hierarchyKey newParentId)
                 in Inr (vendor', st', c2)))"

text \<open>
  \<^verbatim>\<open>Vendor.find({ parentVendor: vendorId })\<close>: the direct children, in collection order.
\<close>

definition findByParent :: "vendor list \<Rightarrow> oid \<Rightarrow> vendor list" where
  "findByParent st vendorId = filter (\<lambda>v. parentVendor v = Some vendorId) st"

text \<open>
  \<^verbatim>\<open>getAllSubVendors(vendorId)\<close> reads the direct children and runs a \<^verbatim>\<open>for\<close> loop
  over them; each iteration pushes the child, calls \<^verbatim>\<open>getAllSubVendors\<close> on the child's
  id and pushes what it returned. \<open>subVendorsLoop st directSubVendors subVendors\<close> is
  that loop on the children still to visit with the array built so far; the recursive call
  is the loop of the child started on an empty array. The source has neither a depth limit
  nor a visited set, so the function may fail to return: the result \<open>None\<close> stands for
  a call that never returns.
\<close>

partial_function (option) subVendorsLoop ::
  "vendor list \<Rightarrow> vendor list \<Rightarrow> vendor list \<Rightarrow> vendor list option" where
  "subVendorsLoop st directSubVendors subVendors =
     (case directSubVendors of
        [] \<Rightarrow> Some subVendors
      | subVendor # rest \<Rightarrow>
          Option.bind (subVendorsLoop st (findByParent st (v_id subVendor)) [])
            (\<lambda>nestedSubVendors.
               subVendorsLoop st rest (subVendors @ [subVendor] @ nestedSubVendors)))"

declare subVendorsLoop.simps [code]

definition getAllSubVendors :: "vendor list \<Rightarrow> oid \<Rightarrow> vendor list option" where
  "getAllSubVendors st vendorId = subVendorsLoop st (findByParent st vendorId) []"

text \<open>
  The vocabulary of the specification: the child-to-parent relation of a store and the
  transitive descendants of a vendor id.
\<close>

definition parentRel :: "vendor list \<Rightarrow> (oid \<times> oid) set" where
  "parentRel st = {(c, p). \<exists>v \<in> set st. v_id v = c \<and> parentVendor v = Some p}"

definition descendants :: "vendor list \<Rightarrow> oid \<Rightarrow> vendor set" where
  "descendants st vendorId = {v \<in> set st. (v_id v, vendorId) \<in> (parentRel st)\<^sup>+}"

definition mkVendor :: "oid \<Rightarrow> vendor_type \<Rightarrow> oid option \<Rightarrow> vendor" where
  "mkVendor i t p =
     \<lparr>v_id = i, v_name = i, v_email = i, vendorType = t, parentVendor = p,
      permissions = [], operatingArea = None, isActive = True\<rparr>"

text \<open>A store whose two vendors name each other as parent.\<close>

definition cyclicStore :: "vendor list" where
  "cyclicStore = [mkVendor ''a'' CITY (Some ''b''), mkVendor ''b'' SUB (Some ''a'')]"

text \<open>A three-level tree: SUPER s, CITY c under s, SUB u and LOCAL l under c, LOCAL m under u.\<close>

definition treeStore :: "vendor list" where
  "treeStore =
     [mkVendor ''s'' SUPER None, mkVendor ''c'' CITY (Some ''s''),
      mkVendor ''u'' SUB (Some ''c''), mkVendor ''l'' LOCAL (Some ''c''),
      mkVendor ''m'' LOCAL (Some ''u'')]"

section \<open>Vehicles and drivers\<close>

text \<open>
  The documents embedded in a vehicle or a driver are nested schema paths: every vehicle
  carries the three entries \<^verbatim>\<open>registrationCertificate\<close>, \<^verbatim>\<open>permit\<close> and
  \<^verbatim>\<open>pollutionCertificate\<close>, each with \<^verbatim>\<open>isVerified\<close> false by default; every driver carries
  the entry \<^verbatim>\<open>drivingLicense\<close>, while \<^verbatim>\<open>addressProof\<close> and \<^verbatim>\<open>identityProof\<close> are declared
  with a \<^verbatim>\<open>type: String\<close> key and so are plain strings, undefined until set.
\<close>

record embedded_doc =
  e_number :: "string option"
  e_expiryDate :: "int option"
  e_documentUrl :: "string option"
  e_isVerified :: bool

record vehicle_documents =
  registrationCertificate :: embedded_doc
  permit :: embedded_doc
  pollutionCertificate :: embedded_doc

record driver_documents =
  drivingLicense :: embedded_doc
  addressProof :: "string option"
  identityProof :: "string option"

record driver =
  d_id :: oid
  d_vendor :: oid
  d_documents :: driver_documents
  assignedVehicle :: "oid option"

record vehicle =
  vh_id :: oid
  vh_vendor :: oid
  vh_documents :: vehicle_documents
  assignedDriver :: "oid option"

text \<open>The embedded documents of a vehicle or driver created without any.\<close>

definition noEntry :: embedded_doc where
  "noEntry = \<lparr>e_number = None, e_expiryDate = None, e_documentUrl = None, e_isVerified = False\<rparr>"

definition noVehicleDocuments :: vehicle_documents where
  "noVehicleDocuments =
     \<lparr>registrationCertificate = noEntry, permit = noEntry, pollutionCertificate = noEntry\<rparr>"

definition noDriverDocuments :: driver_documents where
  "noDriverDocuments = \<lparr>drivingLicense = noEntry, addressProof = None, identityProof = None\<rparr>"

record 'v fleet =
  drivers :: "driver list"
  vehicles :: "vehicle list"
  cache :: "'v cache"

text \<open>A handler's response: the error status and message, or the status and the data.\<close>

datatype 'a response = Failure nat string | Success nat 'a

fun statusCode :: "'a response \<Rightarrow> nat" where
  "statusCode (Failure n m) = n"
| "statusCode (Success n x) = n"

definition saveDriver :: "driver list \<Rightarrow> driver \<Rightarrow> driver list" where
  "saveDriver ds d = map (\<lambda>x. if d_id x = d_id d then d else x) ds"

definition saveVehicle :: "vehicle list \<Rightarrow> vehicle \<Rightarrow> vehicle list" where
  "saveVehicle vs v = map (\<lambda>x. if vh_id x = vh_id v then v else x) vs"

definition delAll :: "'v cache \<Rightarrow> string list \<Rightarrow> 'v cache" where
  "delAll c keys = foldl cacheService_del c keys"

text \<open>
  \<^verbatim>\<open>assignVehicleToDriver\<close> (driver controller): \<open>reqVendor\<close> is \<^verbatim>\<open>req.vendor._id\<close>,
  \<open>driverId\<close> is \<^verbatim>\<open>req.params.id\<close> and \<open>vehicleId\<close> is \<^verbatim>\<open>req.body.vehicleId\<close>.
  The data of the success response are the driver's and the vehicle's id and pointer.
\<close>

definition assignVehicleToDriver ::
  "oid \<Rightarrow> oid \<Rightarrow> oid \<Rightarrow> 'v fleet \<Rightarrow>
     ((oid \<times> oid option) \<times> (oid \<times> oid option)) response \<times> 'v fleet" where
  "assignVehicleToDriver reqVendor driverId vehicleId s =
     (case find (\<lambda>d. d_id d = driverId \<and> d_vendor d = reqVendor) (drivers s) of
        None \<Rightarrow> (Failure 404 ''Driver not found'', s)
      | Some driver \<Rightarrow>
          (case find (\<lambda>v. vh_id v = vehicleId \<and> vh_vendor v = reqVendor) (vehicles s) of
             None \<Rightarrow> (Failure 404 ''Vehicle not found'', s)
           | Some vehicle \<Rightarrow>
               if assignedDriver vehicle \<noteq> None \<and> assignedDriver vehicle \<noteq> Some driverId
               then (Failure 400 ''Vehicle is already assigned to another driver'', s)
               else if assignedVehicle driver \<noteq> None
                       \<and> assignedVehicle driver \<noteq> Some vehicleId
               then (Failure 400 ''Driver is already assigned to another vehicle'', s)
               else
                 let driver' = driver\<lparr>assignedVehicle := Some vehicleId\<rparr>;
                     vehicle' = vehicle\<lparr>assignedDriver := Some driverId\<rparr>
                 in (Success 200
                       ((d_id driver', assignedVehicle driver'),
                        (vh_id vehicle', assignedDriver vehicle')),
                     s\<lparr>drivers := saveDriver (drivers s) driver',
                       vehicles := saveVehicle (vehicles s) vehicle',
                       cache := delAll (cache s)
                         [''driver_'' @ driverId, ''vehicle_'' @ vehicleId,
                          ''vendor_drivers_'' @ d_vendor driver',
                          ''vendor_vehicles_'' @ vh_vendor vehicle']\<rparr>)))"

text \<open>
  \<^verbatim>\<open>assignDriverToVehicle\<close> (vehicle controller): \<open>vehicleId\<close> is \<^verbatim>\<open>req.params.id\<close> and
  \<open>driverId\<close> is \<^verbatim>\<open>req.body.driverId\<close>.
\<close>

definition assignDriverToVehicle ::
  "oid \<Rightarrow> oid \<Rightarrow> oid \<Rightarrow> 'v fleet \<Rightarrow>
     ((oid \<times> oid option) \<times> (oid \<times> oid option)) response \<times> 'v fleet" where
  "assignDriverToVehicle reqVendor vehicleId driverId s =
     (case find (\<lambda>v. vh_id v = vehicleId \<and> vh_vendor v = reqVendor) (vehicles s) of
        None \<Rightarrow> (Failure 404 ''Vehicle not found'', s)
      | Some vehicle \<Rightarrow>
          (case find (\<lambda>d. d_id d = driverId \<and> d_vendor d = reqVendor) (drivers s) of
             None \<Rightarrow> (Failure 404 ''Driver not found'', s)
           | Some driver \<Rightarrow>
               if assignedVehicle driver \<noteq> None \<and> assignedVehicle driver \<noteq> Some vehicleId
               then (Failure 400 ''Driver is already assigned to another vehicle.'', s)
               else if assignedDriver vehicle \<noteq> None
                       \<and> assignedDriver vehicle \<noteq> Some driverId
               then (Failure 400 ''Vehicle is already assigned to another driver.'', s)
               else
                 let vehicle' = vehicle\<lparr>assignedDriver := Some driverId\<rparr>;
                     driver' = driver\<lparr>assignedVehicle := Some vehicleId\<rparr>
                 in (Success 200
                       ((vh_id vehicle', assignedDriver vehicle'),
                        (d_id driver', assignedVehicle driver')),
                     s\<lparr>vehicles := saveVehicle (vehicles s) vehicle',
                       drivers := saveDriver (drivers s) driver',
                       cache := delAll (cache s)
                         [''vehicle_'' @ vehicleId,
                          ''vendor_vehicles_'' @ vh_vendor vehicle',
                          ''fleet_stats_'' @ vh_vendor vehicle']\<rparr>)))"

text \<open>
  \<^verbatim>\<open>deleteDriver\<close>: \<^verbatim>\<open>findOneAndDelete\<close> by id and vendor, then
  \<^verbatim>\<open>Vehicle.findByIdAndUpdate(driver.assignedVehicle, { assignedDriver: null })\<close>.
\<close>

definition deleteDriver :: "oid \<Rightarrow> oid \<Rightarrow> 'v fleet \<Rightarrow> string response \<times> 'v fleet" where
  "deleteDriver reqVendor driverId s =
     (case find (\<lambda>d. d_id d = driverId \<and> d_vendor d = reqVendor) (drivers s) of
        None \<Rightarrow> (Failure 404 ''Driver not found'', s)
      | Some driver \<Rightarrow>
          (Success 200 ''Driver deleted successfully'',
           s\<lparr>drivers := remove1 driver (drivers s),
             vehicles :=
               (case assignedVehicle driver of
                  None \<Rightarrow> vehicles s
                | Some vehicleId \<Rightarrow>
                    (case find (\<lambda>v. vh_id v = vehicleId) (vehicles s) of
                       None \<Rightarrow> vehicles s
                     | Some vehicle \<Rightarrow>
                         saveVehicle (vehicles s) (vehicle\<lparr>assignedDriver := None\<rparr>))),
             cache := delAll (cache s)
               [''driver_'' @ d_id driver, ''vendor_drivers_'' @ d_vendor driver,
                ''all_drivers'']\<rparr>))"

text \<open>
  \<^verbatim>\<open>deleteVehicle\<close>: \<^verbatim>\<open>Vehicle.findByIdAndDelete(req.params.id)\<close> and the cache keys;
  the handler does not read or write the driver collection.
\<close>

definition deleteVehicle :: "oid \<Rightarrow> 'v fleet \<Rightarrow> string response \<times> 'v fleet" where
  "deleteVehicle vehicleId s =
     (case find (\<lambda>v. vh_id v = vehicleId) (vehicles s) of
        None \<Rightarrow> (Failure 404 ''Vehicle not found'', s)
      | Some vehicle \<Rightarrow>
          (Success 200 ''Vehicle deleted successfully'',
           s\<lparr>vehicles := remove1 vehicle (vehicles s),
             cache := delAll (cache s)
               [''vehicle_'' @ vh_id vehicle, ''vendor_vehicles_'' @ vh_vendor vehicle,
                ''fleet_stats_'' @ vh_vendor vehicle]\<rparr>))"

text \<open>
  The assignment invariant of the specification: ids are unique, every assignment pointer
  is answered by the partner's pointer, and no vehicle (driver) is referenced by two
  drivers (vehicles).
\<close>

definition bidirectional :: "'v fleet \<Rightarrow> bool" where
  "bidirectional s \<longleftrightarrow>
     (\<forall>d \<in> set (drivers s). \<forall>x. assignedVehicle d = Some x \<longrightarrow>
        (\<exists>v \<in> set (vehicles s). vh_id v = x \<and> assignedDriver v = Some (d_id d))) \<and>
     (\<forall>v \<in> set (vehicles s). \<forall>x. assignedDriver v = Some x \<longrightarrow>
        (\<exists>d \<in> set (drivers s). d_id d = x \<and> assignedVehicle d = Some (vh_id v)))"

definition unshared :: "'v fleet \<Rightarrow> bool" where
  "unshared s \<longleftrightarrow>
     (\<forall>d \<in> set (drivers s). \<forall>e \<in> set (drivers s).
        assignedVehicle d \<noteq> None \<and> assignedVehicle d = assignedVehicle e \<longrightarrow> d = e) \<and>
     (\<forall>v \<in> set (vehicles s). \<forall>w \<in> set (vehicles s).
        assignedDriver v \<noteq> None \<and> assignedDriver v = assignedDriver w \<longrightarrow> v = w)"

definition assignmentInvariant :: "'v fleet \<Rightarrow> bool" where
  "assignmentInvariant s \<longleftrightarrow>
     distinct (map d_id (drivers s)) \<and> distinct (map vh_id (vehicles s)) \<and>
     bidirectional s \<and> unshared s"

text \<open>
  \<open>assigned driverId vehicleId s\<close>: in \<open>s\<close> the driver's pointer names the vehicle and
  the vehicle's pointer names the driver. \<open>conflicting\<close>: both records are found for the
  requesting vendor and the driver is assigned to a different vehicle or the vehicle to a
  different driver.
\<close>

definition assigned :: "oid \<Rightarrow> oid \<Rightarrow> 'v fleet \<Rightarrow> bool" where
  "assigned driverId vehicleId s \<longleftrightarrow>
     (case find (\<lambda>d. d_id d = driverId) (drivers s) of
        None \<Rightarrow> False | Some d \<Rightarrow> assignedVehicle d = Some vehicleId) \<and>
     (case find (\<lambda>v. vh_id v = vehicleId) (vehicles s) of
        None \<Rightarrow> False | Some v \<Rightarrow> assignedDriver v = Some driverId)"

definition conflicting :: "oid \<Rightarrow> oid \<Rightarrow> oid \<Rightarrow> 'v fleet \<Rightarrow> bool" where
  "conflicting reqVendor driverId vehicleId s \<longleftrightarrow>
     (case find (\<lambda>d. d_id d = driverId \<and> d_vendor d = reqVendor) (drivers s) of
        None \<Rightarrow> False
      | Some d \<Rightarrow>
          (case find (\<lambda>v. vh_id v = vehicleId \<and> vh_vendor v = reqVendor) (vehicles s) of
             None \<Rightarrow> False
           | Some v \<Rightarrow>
               (assignedVehicle d \<noteq> None \<and> assignedVehicle d \<noteq> Some vehicleId) \<or>
               (assignedDriver v \<noteq> None \<and> assignedDriver v \<noteq> Some driverId)))"

section \<open>Document utilities\<close>

text \<open>
  Dates are milliseconds since the epoch; \<open>now\<close> is the value of \<^verbatim>\<open>new Date()\<close>
  in the call. \<^verbatim>\<open>isDocumentExpired\<close> is \<^verbatim>\<open>today > expiry\<close>;
  \<^verbatim>\<open>isDocumentExpiringSoon\<close> rounds the difference up to whole days with
  \<^verbatim>\<open>Math.ceil(diffTime / (1000 * 60 * 60 * 24))\<close>. The quotient is taken exactly: the
  difference is a whole number of milliseconds, so the rounding of the floating-point
  division cannot carry the quotient across zero or across thirty.
\<close>

definition isDocumentExpired :: "int \<Rightarrow> int \<Rightarrow> bool" where
  "isDocumentExpired now expiryDate \<longleftrightarrow> now > expiryDate"

definition msPerDay :: int where
  "msPerDay = 1000 * 60 * 60 * 24"

definition isDocumentExpiringSoon :: "int \<Rightarrow> int \<Rightarrow> int \<Rightarrow> bool" where
  "isDocumentExpiringSoon now expiryDate days =
     (let diffTime = expiryDate - now;
          diffDays = \<lceil>real_of_int diffTime / real_of_int msPerDay\<rceil>
      in diffDays \<le> days \<and> diffDays > 0)"

section \<open>Document service\<close>

datatype entity_type = VEHICLE | DRIVER | VENDOR

record document =
  doc_id :: oid
  entityType :: entity_type
  entityId :: oid
  documentType :: string
  expiryDate :: "int option"
  isVerified :: bool
  doc_vendor :: oid

text \<open>
  The clock: \<open>clk i\<close> is the value of the \<open>i\<close>-th \<^verbatim>\<open>new Date()\<close> evaluated during a call.
  A function that reads the clock takes the index of the next reading and returns its
  result together with the index after the readings it took.
\<close>

type_synonym clock = "nat \<Rightarrow> int"

text \<open>
  The service's own \<^verbatim>\<open>isDocumentExpired(document)\<close>:
  \<^verbatim>\<open>document.expiryDate && document.expiryDate < new Date()\<close>; the clock is read only
  for a document that has an expiry date.
\<close>

definition ds_isDocumentExpired :: "clock \<Rightarrow> document \<Rightarrow> nat \<Rightarrow> bool \<times> nat" where
  "ds_isDocumentExpired clk doc n =
     (case expiryDate doc of None \<Rightarrow> (False, n) | Some e \<Rightarrow> (e < clk n, Suc n))"

text \<open>
  \<^verbatim>\<open>entityDocs.every(doc => doc.isVerified && !this.isDocumentExpired(doc))\<close>: the expiry
  of an unverified document is not asked for, and the first document that fails ends the
  loop.
\<close>

fun everyDocument :: "clock \<Rightarrow> document list \<Rightarrow> nat \<Rightarrow> bool \<times> nat" where
  "everyDocument clk [] n = (True, n)"
| "everyDocument clk (doc # docs) n =
     (if \<not> isVerified doc then (False, n)
      else case ds_isDocumentExpired clk doc n of
             (True, n') \<Rightarrow> (False, n')
           | (False, n') \<Rightarrow> everyDocument clk docs n')"

definition isEntityCompliant :: "clock \<Rightarrow> oid \<Rightarrow> document list \<Rightarrow> nat \<Rightarrow> bool \<times> nat" where
  "isEntityCompliant clk entityIdArg documents n =
     (let entityDocs = filter (\<lambda>doc. entityId doc = entityIdArg) documents
      in if length entityDocs > 0 then everyDocument clk entityDocs n else (False, n))"

text \<open>
  \<^verbatim>\<open>xs.filter(p).length\<close> for a callback that reads the clock, and the callback
  \<^verbatim>\<open>x => !p(x)\<close>.
\<close>

fun countWhere :: "('a \<Rightarrow> nat \<Rightarrow> bool \<times> nat) \<Rightarrow> 'a list \<Rightarrow> nat \<Rightarrow> nat \<times> nat" where
  "countWhere p [] n = (0, n)"
| "countWhere p (x # xs) n =
     (case p x n of
        (b, n') \<Rightarrow>
          (case countWhere p xs n' of (k, n'') \<Rightarrow> (if b then Suc k else k, n'')))"

definition negated :: "('a \<Rightarrow> nat \<Rightarrow> bool \<times> nat) \<Rightarrow> 'a \<Rightarrow> nat \<Rightarrow> bool \<times> nat" where
  "negated p x n = (case p x n of (b, n') \<Rightarrow> (\<not> b, n'))"

record counts =
  total :: nat
  compliant :: nat
  nonCompliant :: nat

record report =
  r_vehicles :: counts
  r_drivers :: counts

text \<open>The template string \<^verbatim>\<open>compliance_report_${vendorId}\<close>.\<close>

definition reportKey :: "string \<Rightarrow> string" where
  "reportKey i = ''compliance_report_'' @ i"

text \<open>
  \<^verbatim>\<open>getVendorComplianceReport(vendorId)\<close>: the cached report when the awaited cache read
  is truthy; otherwise the vendor's vehicles and drivers, their documents by entity type,
  and the report object, whose four filter passes run one after the other, each calling
  \<^verbatim>\<open>isEntityCompliant\<close> afresh for every entity; the report is stored under the report
  key and returned.
\<close>

definition getVendorComplianceReport ::
  "clock \<Rightarrow> vehicle list \<Rightarrow> driver list \<Rightarrow> document list \<Rightarrow> report cache \<Rightarrow> oid \<Rightarrow>
     report \<times> report cache" where
  "getVendorComplianceReport clk allVehicles allDrivers allDocuments c vendorId =
     (let cacheKey = reportKey vendorId
      in case settle (cacheService_get c cacheKey) of
           Some cachedReport \<Rightarrow> (cachedReport, c)
         | None \<Rightarrow>
             let vs = filter (\<lambda>v. vh_vendor v = vendorId) allVehicles;
                 ds = filter (\<lambda>d. d_vendor d = vendorId) allDrivers;
                 vehicleIds = map vh_id vs;
                 driverIds = map d_id ds;
                 vehicleDocs = filter (\<lambda>doc. entityId doc \<in> set vehicleIds
                                  \<and> entityType doc = VEHICLE) allDocuments;
                 driverDocs = filter (\<lambda>doc. entityId doc \<in> set driverIds
                                  \<and> entityType doc = DRIVER) allDocuments;
                 vehicleOk = (\<lambda>v. isEntityCompliant clk (vh_id v) vehicleDocs);
                 driverOk = (\<lambda>d. isEntityCompliant clk (d_id d) driverDocs);
                 (vc, n1) = countWhere vehicleOk vs 0;
                 (vn, n2) = countWhere (negated vehicleOk) vs n1;
                 (dc, n3) = countWhere driverOk ds n2;
                 (dn, n4) = countWhere (negated driverOk) ds n3;
                 rep = \<lparr>r_vehicles = \<lparr>total = length vs, compliant = vc, nonCompliant = vn\<rparr>,
                        r_drivers = \<lparr>total = length ds, compliant = dc, nonCompliant = dn\<rparr>\<rparr>
             in (rep, cacheService_set c cacheKey (Some rep)))"

text \<open>
  The legacy report of the vendor controller, \<^verbatim>\<open>getComplianceReports\<close>, reads the
  documents embedded in each vehicle and driver with \<^verbatim>\<open>Object.values(v.documents || {})\<close>:
  the three entries of a vehicle, and for a driver the licence entry followed by the two
  proofs, each a string or undefined.
\<close>

datatype js_entry = Entry embedded_doc | Text string | Undefined

definition vehicleValues :: "vehicle_documents \<Rightarrow> js_entry list" where
  "vehicleValues docs =
     [Entry (registrationCertificate docs), Entry (permit docs),
      Entry (pollutionCertificate docs)]"

definition proofValue :: "string option \<Rightarrow> js_entry" where
  "proofValue x = (case x of None \<Rightarrow> Undefined | Some t \<Rightarrow> Text t)"

definition driverValues :: "driver_documents \<Rightarrow> js_entry list" where
  "driverValues docs =
     [Entry (drivingLicense docs), proofValue (addressProof docs),
      proofValue (identityProof docs)]"

text \<open>
  \<^verbatim>\<open>every(d => d.isVerified && new Date(d.expiryDate) > new Date())\<close> and
  \<^verbatim>\<open>some(d => !d.isVerified || new Date(d.expiryDate) <= new Date())\<close>. Reading
  \<^verbatim>\<open>isVerified\<close> of undefined throws; of a string it is undefined, which is falsy. The
  clock is read only for a verified entry; a missing expiry date gives an invalid date, for
  which both comparisons are false.
\<close>

fun legacyEvery :: "clock \<Rightarrow> js_entry list \<Rightarrow> nat \<Rightarrow> (error + bool) \<times> nat" where
  "legacyEvery clk [] n = (Inr True, n)"
| "legacyEvery clk (Undefined # ds) n =
     (Inl (TypeError ''Cannot read properties of undefined''), n)"
| "legacyEvery clk (Text t # ds) n = (Inr False, n)"
| "legacyEvery clk (Entry d # ds) n =
     (if \<not> e_isVerified d then (Inr False, n)
      else case e_expiryDate d of
             None \<Rightarrow> (Inr False, Suc n)
           | Some e \<Rightarrow> if e > clk n then legacyEvery clk ds (Suc n) else (Inr False, Suc n))"

fun legacySome :: "clock \<Rightarrow> js_entry list \<Rightarrow> nat \<Rightarrow> (error + bool) \<times> nat" where
  "legacySome clk [] n = (Inr False, n)"
| "legacySome clk (Undefined # ds) n =
     (Inl (TypeError ''Cannot read properties of undefined''), n)"
| "legacySome clk (Text t # ds) n = (Inr True, n)"
| "legacySome clk (Entry d # ds) n =
     (if \<not> e_isVerified d then (Inr True, n)
      else case e_expiryDate d of
             None \<Rightarrow> legacySome clk ds (Suc n)
           | Some e \<Rightarrow> if e \<le> clk n then (Inr True, Suc n) else legacySome clk ds (Suc n))"

text \<open>\<^verbatim>\<open>xs.filter(p).length\<close> for a callback that may throw.\<close>

fun countWhereThrowing ::
  "('a \<Rightarrow> nat \<Rightarrow> (error + bool) \<times> nat) \<Rightarrow> 'a list \<Rightarrow> nat \<Rightarrow> (error + nat) \<times> nat" where
  "countWhereThrowing p [] n = (Inr 0, n)"
| "countWhereThrowing p (x # xs) n =
     (case p x n of
        (Inl e, n') \<Rightarrow> (Inl e, n')
      | (Inr b, n') \<Rightarrow>
          (case countWhereThrowing p xs n' of
             (Inl e, n'') \<Rightarrow> (Inl e, n'')
           | (Inr k, n'') \<Rightarrow> (Inr (if b then Suc k else k), n'')))"

text \<open>
  The handler: the four passes in the order of the object literal; an exception in any of
  them is caught and answered with status 500.
\<close>

definition getComplianceReports ::
  "clock \<Rightarrow> vehicle list \<Rightarrow> driver list \<Rightarrow> oid \<Rightarrow> report response" where
  "getComplianceReports clk allVehicles allDrivers vendorId =
     (let vs = filter (\<lambda>v. vh_vendor v = vendorId) allVehicles;
          ds = filter (\<lambda>d. d_vendor d = vendorId) allDrivers;
          failed = Failure 500 ''Error getting compliance reports''
      in case countWhereThrowing (\<lambda>v. legacyEvery clk (vehicleValues (vh_documents v))) vs 0 of
           (Inl e, n1) \<Rightarrow> failed
         | (Inr vc, n1) \<Rightarrow>
        (case countWhereThrowing (\<lambda>v. legacySome clk (vehicleValues (vh_documents v))) vs n1 of
           (Inl e, n2) \<Rightarrow> failed
         | (Inr vn, n2) \<Rightarrow>
        (case countWhereThrowing (\<lambda>d. legacyEvery clk (driverValues (d_documents d))) ds n2 of
           (Inl e, n3) \<Rightarrow> failed
         | (Inr dc, n3) \<Rightarrow>
        (case countWhereThrowing (\<lambda>d. legacySome clk (driverValues (d_documents d))) ds n3 of
           (Inl e, n4) \<Rightarrow> failed
         | (Inr dn, n4) \<Rightarrow>
             Success 200
               \<lparr>r_vehicles = \<lparr>total = length vs, compliant = vc, nonCompliant = vn\<rparr>,
                r_drivers = \<lparr>total = length ds, compliant = dc, nonCompliant = dn\<rparr>\<rparr>))))"

text \<open>
  The vocabulary of the specification: the documents of the collection attached to an
  entity of a given type; a document expired at an instant; the clock reading that
  \<^verbatim>\<open>every\<close> compares the \<open>i\<close>-th document of a list with, when it gets that far; an
  entity that has a document and whose documents are all verified and unexpired at an
  instant; and a report whose two buckets of each kind add up to its total.
\<close>

definition attachedDocs :: "entity_type \<Rightarrow> oid \<Rightarrow> document list \<Rightarrow> document list" where
  "attachedDocs t e docs = filter (\<lambda>doc. entityId doc = e \<and> entityType doc = t) docs"

definition expiredAt :: "int \<Rightarrow> document \<Rightarrow> bool" where
  "expiredAt now doc = (case expiryDate doc of None \<Rightarrow> False | Some e \<Rightarrow> e < now)"

definition readIndex :: "document list \<Rightarrow> nat \<Rightarrow> nat \<Rightarrow> nat" where
  "readIndex docs n i = n + length (filter (\<lambda>d. expiryDate d \<noteq> None) (take i docs))"

definition compliantAt :: "int \<Rightarrow> entity_type \<Rightarrow> oid \<Rightarrow> document list \<Rightarrow> bool" where
  "compliantAt now t e docs \<longleftrightarrow>
     attachedDocs t e docs \<noteq> [] \<and>
     list_all (\<lambda>doc. isVerified doc \<and> \<not> expiredAt now doc) (attachedDocs t e docs)"


section \<open>Registration of a local vendor\<close>

text \<open>
  \<^verbatim>\<open>toLowerCase\<close> and \<^verbatim>\<open>trim\<close> on ASCII text: the letters A to Z are lowered, and
  blanks, tabs and line breaks are stripped from both ends.
\<close>

definition lowerChar :: "char \<Rightarrow> char" where
  "lowerChar ch =
     (let n = (of_char ch :: nat) in if 65 \<le> n \<and> n \<le> 90 then char_of (n + 32) else ch)"

definition toLowerCase :: "string \<Rightarrow> string" where
  "toLowerCase s = map lowerChar s"

definition isSpace :: "char \<Rightarrow> bool" where
  "isSpace ch = ((of_char ch :: nat) \<in> {9, 10, 11, 12, 13, 32})"

definition trim :: "string \<Rightarrow> string" where
  "trim s = rev (dropWhile isSpace (rev (dropWhile isSpace s)))"

definition norm :: "string \<Rightarrow> string" where
  "norm s = trim (toLowerCase s)"

record register_body =
  b_name :: string
  b_email :: string
  b_password :: string
  b_parentVendorId :: oid
  b_permissions :: "string list"
  b_operatingArea :: "operating_area option"

text \<open>
  \<^verbatim>\<open>registerLocalVendor\<close>: \<open>creator\<close> is \<^verbatim>\<open>req.vendor\<close>, \<open>newId\<close> the \<^verbatim>\<open>_id\<close>
  given to the new document. The checks run in the order of the handler: the parent must be
  a CITY vendor, the creator must be authorised, the cities must agree, a zone must be found
  in the parent's zones, the e-mail must be new. Reading the zones of a missing operating
  area throws, and the handler's \<^verbatim>\<open>catch\<close> answers 400 with the message of the exception.
  The signed token of the response, the hashing of the password and the trimming and
  lower-casing of the stored e-mail by the schema are left out.
\<close>

definition isAuthorizedCreator :: "vendor \<Rightarrow> vendor \<Rightarrow> oid \<Rightarrow> bool" where
  "isAuthorizedCreator creator parent parentVendorId \<longleftrightarrow>
     (vendorType creator = SUPER \<and> parentVendor parent = Some (v_id creator)) \<or>
     (vendorType creator = CITY \<and> v_id creator = parentVendorId) \<or>
     (vendorType creator = SUB \<and> parentVendor creator = Some parentVendorId)"

definition cityOf :: "operating_area option \<Rightarrow> string" where
  "cityOf area =
     (case area of None \<Rightarrow> []
      | Some a \<Rightarrow> (case city a of None \<Rightarrow> [] | Some x \<Rightarrow> x))"

definition localZonesOf :: "operating_area \<Rightarrow> string list" where
  "localZonesOf a =
     (case zones a of
        Some zs \<Rightarrow> zs
      | None \<Rightarrow> (case zone a of None \<Rightarrow> [] | Some z \<Rightarrow> if z = [] then [] else [z]))"

definition isZoneValid :: "string list \<Rightarrow> string list \<Rightarrow> bool" where
  "isZoneValid localZones parentZones =
     list_ex (\<lambda>z. norm z \<in> set (map norm parentZones)) localZones"

definition registerLocalVendor ::
  "vendor \<Rightarrow> register_body \<Rightarrow> oid \<Rightarrow> vendor list \<Rightarrow> 'v cache \<Rightarrow>
     vendor response \<times> vendor list \<times> 'v cache" where
  "registerLocalVendor creator body newId st c =
     (case find (\<lambda>v. v_id v = b_parentVendorId body \<and> vendorType v = CITY) st of
        None \<Rightarrow>
          (Failure 400 ''Local vendors can only be registered under a City vendor.'', st, c)
      | Some parent \<Rightarrow>
          if \<not> isAuthorizedCreator creator parent (b_parentVendorId body)
          then (Failure 403
                  ''You are not authorized to create a Local vendor under this City vendor.'',
                st, c)
          else
            let localCity = norm (cityOf (b_operatingArea body));
                parentCity = norm (cityOf (operatingArea parent))
            in if localCity = [] \<or> parentCity = [] \<or> localCity \<noteq> parentCity
               then (Failure 400
                  ''Local vendor operating area city must match the parent City vendor operating area city.'',
                  st, c)
               else
                 (case (b_operatingArea body, operatingArea parent) of
                    (Some area, Some parentArea) \<Rightarrow>
                      let localZones = localZonesOf area;
                          parentZones = (case zones parentArea of None \<Rightarrow> [] | Some zs \<Rightarrow> zs)
                      in if \<not> isZoneValid localZones parentZones
                         then (Failure 400
                            ''One or more zones specified for the Local vendor do not exist in the parent City vendor's zones.'',
                            st, c)
                         else if find (\<lambda>v. v_email v = b_email body) st \<noteq> None
                         then (Failure 400 ''Vendor already exists'', st, c)
                         else
                           let vendor =
                                 \<lparr>v_id = newId, v_name = b_name body, v_email = b_email body,
                                  vendorType = LOCAL,
                                  parentVendor = Some (b_parentVendorId body),
                                  permissions = b_permissions body,
                                  operatingArea = Some area, isActive = True\<rparr>
                           in (Success 201 vendor, st @ [vendor],
                               cacheService_del (cacheService_del c ''all_vendors'')
                                 (hierarchyKey (idString (parentVendor vendor))))
                  | _ \<Rightarrow> (Failure 400 ''Cannot read properties of undefined'', st, c)))"

section \<open>Sample data\<close>

definition allTypes :: "vendor_type list" where
  "allTypes = [SUPER, REGIONAL, CITY, SUB, LOCAL]"

text \<open>A store holding one parent and one child of the given types.\<close>

definition pairStore :: "vendor_type \<Rightarrow> vendor_type \<Rightarrow> vendor list" where
  "pairStore parentType childType =
     [mkVendor ''p'' parentType None, mkVendor ''c'' childType (Some ''p'')]"

definition acceptedTypePairs :: "(vendor_type \<times> vendor_type) list" where
  "acceptedTypePairs =
     filter (\<lambda>(parentType, childType).
               validateHierarchy (pairStore parentType childType) ''c'' ''p'')
       (List.product allTypes allTypes)"

definition rejectedTypePairs :: "(vendor_type \<times> vendor_type) list" where
  "rejectedTypePairs =
     filter (\<lambda>(parentType, childType).
               \<not> validateHierarchy (pairStore parentType childType) ''c'' ''p'')
       (List.product allTypes allTypes)"

text \<open>Two SUPER vendors and a CITY vendor under the first; both hierarchies are cached.\<close>

definition transferStore :: "vendor list" where
  "transferStore =
     [mkVendor ''s1'' SUPER None, mkVendor ''s2'' SUPER None, mkVendor ''c'' CITY (Some ''s1'')]"

definition transferCache :: "nat cache" where
  "transferCache =
     (\<lambda>k. None)(''vendor_hierarchy_s1'' := Some (Some 1),
                ''vendor_hierarchy_s2'' := Some (Some 2))"

definition emptyCache :: "hierarchy cache" where
  "emptyCache = (\<lambda>k. None)"

text \<open>
  A fleet of one vendor: driver d1 and vehicle v1 are free, driver d2 and vehicle v2 are
  assigned to each other.
\<close>

definition sampleFleet :: "nat fleet" where
  "sampleFleet =
     \<lparr>drivers =
        [\<lparr>d_id = ''d1'', d_vendor = ''V'', d_documents = noDriverDocuments, assignedVehicle = None\<rparr>,
         \<lparr>d_id = ''d2'', d_vendor = ''V'', d_documents = noDriverDocuments, assignedVehicle = Some ''v2''\<rparr>],
      vehicles =
        [\<lparr>vh_id = ''v1'', vh_vendor = ''V'', vh_documents = noVehicleDocuments, assignedDriver = None\<rparr>,
         \<lparr>vh_id = ''v2'', vh_vendor = ''V'', vh_documents = noVehicleDocuments, assignedDriver = Some ''d2''\<rparr>],
      cache = (\<lambda>k. None)\<rparr>"

text \<open>
  A vendor with two vehicles: a has one verified document that expires after \<open>now = 1000\<close>,
  b has one verified document that expired before; and a vendor whose only vehicle has no
  document at all.
\<close>

definition sampleVehicles :: "vehicle list" where
  "sampleVehicles =
     [\<lparr>vh_id = ''a'', vh_vendor = ''V'', vh_documents = noVehicleDocuments, assignedDriver = None\<rparr>,
      \<lparr>vh_id = ''b'', vh_vendor = ''V'', vh_documents = noVehicleDocuments, assignedDriver = None\<rparr>,
      \<lparr>vh_id = ''z'', vh_vendor = ''W'', vh_documents = noVehicleDocuments, assignedDriver = None\<rparr>]"

definition sampleDocuments :: "document list" where
  "sampleDocuments =
     [\<lparr>doc_id = ''1'', entityType = VEHICLE, entityId = ''a'', documentType = ''permit'',
       expiryDate = Some 2000, isVerified = True, doc_vendor = ''V''\<rparr>,
      \<lparr>doc_id = ''2'', entityType = VEHICLE, entityId = ''b'', documentType = ''permit'',
       expiryDate = Some 500, isVerified = True, doc_vendor = ''V''\<rparr>]"

definition emptyReportCache :: "report cache" where
  "emptyReportCache = (\<lambda>k. None)"

text \<open>
  The vehicles of the same collection after a and b were deleted and a vehicle n without
  any document was added for their vendor.
\<close>

definition replacedVehicles :: "vehicle list" where
  "replacedVehicles =
     [\<lparr>vh_id = ''z'', vh_vendor = ''W'', vh_documents = noVehicleDocuments, assignedDriver = None\<rparr>,
      \<lparr>vh_id = ''n'', vh_vendor = ''V'', vh_documents = noVehicleDocuments, assignedDriver = None\<rparr>]"

text \<open>
  Two drivers: p was created without documents; q has a verified driving licence that
  expires after \<open>now = 1000\<close> and no address or identity proof.
\<close>

definition sampleDrivers :: "driver list" where
  "sampleDrivers =
     [\<lparr>d_id = ''p'', d_vendor = ''W'', d_documents = noDriverDocuments, assignedVehicle = None\<rparr>,
      \<lparr>d_id = ''q'', d_vendor = ''V'',
       d_documents =
         \<lparr>drivingLicense = \<lparr>e_number = Some ''DL-1'', e_expiryDate = Some 2000,
                             e_documentUrl = None, e_isVerified = True\<rparr>,
          addressProof = None, identityProof = None\<rparr>,
       assignedVehicle = None\<rparr>]"

text \<open>
  Two clocks: one whose readings during a call all give the same instant, and one that
  advances by a millisecond from each reading to the next.
\<close>

definition fixedClock :: "int \<Rightarrow> clock" where
  "fixedClock now = (\<lambda>i. now)"


text \<open>
  A SUPER vendor s1 and the CITY vendor c1 under it, operating in Metropolis with the single
  zone North; the requests below are made by c1 for a local vendor under itself.
\<close>

definition metropolis :: vendor where
  "metropolis =
     \<lparr>v_id = ''c1'', v_name = ''City'', v_email = ''city@fleet'', vendorType = CITY,
      parentVendor = Some ''s1'', permissions = [],
      operatingArea = Some \<lparr>city = Some ''Metropolis'', zones = Some [''North''],
                             zone = None, pincodes = []\<rparr>,
      isActive = True\<rparr>"

definition registerStore :: "vendor list" where
  "registerStore = [mkVendor ''s1'' SUPER None, metropolis]"

definition localRequest :: "string \<Rightarrow> string list \<Rightarrow> register_body" where
  "localRequest cityName zoneNames =
     \<lparr>b_name = ''Local'', b_email = ''local@fleet'', b_password = ''secret'',
      b_parentVendorId = ''c1'', b_permissions = [],
      b_operatingArea = Some \<lparr>city = Some cityName, zones = Some zoneNames,
                               zone = None, pincodes = []\<rparr>\<rparr>"

section \<open>Hierarchy validation\<close>

lemma findById_pairStore:
  "findById (pairStore pt ct) ''c'' = Some (mkVendor ''c'' ct (Some ''p''))"
  "findById (pairStore pt ct) ''p'' = Some (mkVendor ''p'' pt None)"
  by (simp_all add: findById_def pairStore_def mkVendor_def)

lemma validateHierarchy_pairStore:
  "validateHierarchy (pairStore pt ct) ''c'' ''p'' \<longleftrightarrow>
     (pt, ct) \<in> {(SUPER, CITY), (CITY, SUB), (CITY, LOCAL), (SUB, LOCAL)}"
  by (cases pt; cases ct)
     (simp_all add: validateHierarchy_def findById_pairStore mkVendor_def)

text \<open>
  C1, as stated: \<^verbatim>\<open>validateHierarchy\<close> accepts exactly five of the twenty-five
  (parent type, child type) combinations and rejects twenty. It accepts four.
\<close>

theorem validateHierarchy_five_pairs_counterexample:
  "\<not> (length acceptedTypePairs = 5 \<and> length rejectedTypePairs = 20)"
  by (simp add: acceptedTypePairs_def rejectedTypePairs_def allTypes_def
        validateHierarchy_pairStore)

text \<open>
  C1, amended: \<^verbatim>\<open>validateHierarchy(childId, parentId)\<close> is true exactly when both vendors
  exist and (parent type, child type) is one of the four pairs SUPER-CITY, CITY-SUB,
  CITY-LOCAL, SUB-LOCAL; so it is false when either vendor is missing, and of the
  twenty-five type combinations it accepts these four and rejects the other twenty-one.
\<close>

theorem validateHierarchy_permitted_pairs:
  "(validateHierarchy st childId parentId \<longleftrightarrow>
      (\<exists>child parent. findById st childId = Some child \<and> findById st parentId = Some parent \<and>
         (vendorType parent, vendorType child) \<in>
           {(SUPER, CITY), (CITY, SUB), (CITY, LOCAL), (SUB, LOCAL)})) \<and>
   acceptedTypePairs = [(SUPER, CITY), (CITY, SUB), (CITY, LOCAL), (SUB, LOCAL)] \<and>
   length rejectedTypePairs = 21"
proof (intro conjI)
  show "validateHierarchy st childId parentId \<longleftrightarrow>
      (\<exists>child parent. findById st childId = Some child \<and> findById st parentId = Some parent \<and>
         (vendorType parent, vendorType child) \<in>
           {(SUPER, CITY), (CITY, SUB), (CITY, LOCAL), (SUB, LOCAL)})"
  proof (cases "findById st childId")
    case None
    then show ?thesis by (simp add: validateHierarchy_def)
  next
    case child: (Some child)
    show ?thesis
    proof (cases "findById st parentId")
      case None
      with child show ?thesis by (simp add: validateHierarchy_def)
    next
      case (Some parent)
      with child show ?thesis
        by (cases "vendorType parent"; cases "vendorType child")
           (simp_all add: validateHierarchy_def)
    qed
  qed
next
  show "acceptedTypePairs = [(SUPER, CITY), (CITY, SUB), (CITY, LOCAL), (SUB, LOCAL)]"
    by (simp add: acceptedTypePairs_def allTypes_def validateHierarchy_pairStore)
next
  show "length rejectedTypePairs = 21"
    by (simp add: rejectedTypePairs_def allTypes_def validateHierarchy_pairStore)
qed

section \<open>Collecting sub-vendors\<close>

lemma subVendorsLoop_Nil: "subVendorsLoop st [] acc = Some acc"
  by (simp add: subVendorsLoop.simps[of st "[]"])

lemma subVendorsLoop_step:
  "subVendorsLoop st (s # rest) acc =
     Option.bind (subVendorsLoop st (findByParent st (v_id s)) [])
       (\<lambda>n. subVendorsLoop st rest (acc @ [s] @ n))"
  by (subst subVendorsLoop.simps) simp

lemma subVendorsLoop_acc:
  "subVendorsLoop st ds acc = map_option ((@) acc) (subVendorsLoop st ds [])"
proof (induction ds arbitrary: acc)
  case Nil
  show ?case by (simp add: subVendorsLoop_Nil)
next
  case (Cons s rest)
  have a: "subVendorsLoop st rest (acc @ [s] @ n) =
        map_option ((@) acc) (subVendorsLoop st rest ([] @ [s] @ n))" for n
    using Cons.IH[of "acc @ [s] @ n"] Cons.IH[of "[] @ [s] @ n"]
    by (simp add: option.map_comp comp_def)
  show ?case
    unfolding subVendorsLoop_step[of st s rest acc] subVendorsLoop_step[of st s rest "[]"] a
    by (cases "subVendorsLoop st (findByParent st (v_id s)) []") simp_all
qed

lemma append_eta: "(@) (s # n) = (\<lambda>r. s # n @ r)"
  by (rule ext) simp

lemma same_id_same_vendor:
  "distinct (map v_id st) \<Longrightarrow> v \<in> set st \<Longrightarrow> w \<in> set st \<Longrightarrow> v_id v = v_id w \<Longrightarrow> v = w"
  by (metis distinct_map inj_onD)

lemma subVendorsLoop_Cons:
  "subVendorsLoop st (s # rest) [] =
     Option.bind (getAllSubVendors st (v_id s))
       (\<lambda>n. map_option (\<lambda>r. s # n @ r) (subVendorsLoop st rest []))"
proof -
  have "subVendorsLoop st (s # rest) [] =
     Option.bind (getAllSubVendors st (v_id s)) (\<lambda>n. subVendorsLoop st rest (s # n))"
    by (simp add: subVendorsLoop_step getAllSubVendors_def)
  also have "\<dots> = Option.bind (getAllSubVendors st (v_id s))
       (\<lambda>n. map_option (\<lambda>r. s # n @ r) (subVendorsLoop st rest []))"
    by (subst subVendorsLoop_acc) (simp add: append_eta)
  finally show ?thesis .
qed

lemma subVendorsLoop_all:
  assumes "\<And>s. s \<in> set ds \<Longrightarrow> getAllSubVendors st (v_id s) \<noteq> None"
  shows "subVendorsLoop st ds [] =
           Some (concat (map (\<lambda>s. s # the (getAllSubVendors st (v_id s))) ds))"
  using assms
proof (induction ds)
  case Nil
  show ?case by (simp add: subVendorsLoop_Nil)
next
  case (Cons s rest)
  from Cons.prems[of s] obtain n where n: "getAllSubVendors st (v_id s) = Some n" by auto
  have "subVendorsLoop st rest [] =
           Some (concat (map (\<lambda>s. s # the (getAllSubVendors st (v_id s))) rest))"
    using Cons.IH Cons.prems by simp
  then show ?case by (simp add: subVendorsLoop_Cons n)
qed

lemma finite_parentRel: "finite (parentRel st)"
proof -
  have "parentRel st \<subseteq> (\<lambda>v. (v_id v, the (parentVendor v))) ` set st"
    by (force simp: parentRel_def)
  then show ?thesis by (rule finite_subset) simp
qed

lemma single_valued_parentRel:
  assumes "distinct (map v_id st)"
  shows "single_valued (parentRel st)"
proof (rule single_valuedI)
  fix c p q
  assume "(c, p) \<in> parentRel st" "(c, q) \<in> parentRel st"
  then obtain v w where v: "v \<in> set st" "v_id v = c" "parentVendor v = Some p"
    and w: "w \<in> set st" "v_id w = c" "parentVendor w = Some q"
    by (auto simp: parentRel_def)
  from assms v(1,2) w(1,2) have "v = w"
    by (auto intro: same_id_same_vendor)
  with v(3) w(3) show "p = q" by simp
qed

lemma child_in_rel: "c \<in> set (findByParent st i) \<Longrightarrow> (v_id c, i) \<in> parentRel st"
  by (auto simp: findByParent_def parentRel_def)

lemma descendants_unfold:
  assumes d: "distinct (map v_id st)"
  shows "descendants st i = (\<Union>c \<in> set (findByParent st i). insert c (descendants st (v_id c)))"
proof (rule set_eqI, rule iffI)
  fix v assume "v \<in> descendants st i"
  then have v: "v \<in> set st" and t: "(v_id v, i) \<in> (parentRel st)\<^sup>+"
    by (auto simp: descendants_def)
  from t show "v \<in> (\<Union>c \<in> set (findByParent st i). insert c (descendants st (v_id c)))"
  proof (cases rule: tranclE)
    case base
    then obtain w where "w \<in> set st" "v_id w = v_id v" "parentVendor w = Some i"
      by (auto simp: parentRel_def)
    with v same_id_same_vendor[OF d, of w v] have "v \<in> set (findByParent st i)"
      by (auto simp: findByParent_def)
    then show ?thesis by blast
  next
    case (step m)
    then obtain c where "c \<in> set st" "v_id c = m" "parentVendor c = Some i"
      by (auto simp: parentRel_def)
    with step v show ?thesis
      by (auto simp: descendants_def findByParent_def)
  qed
next
  fix v assume "v \<in> (\<Union>c \<in> set (findByParent st i). insert c (descendants st (v_id c)))"
  then obtain c where c: "c \<in> set (findByParent st i)" and "v = c \<or> v \<in> descendants st (v_id c)"
    by auto
  then show "v \<in> descendants st i"
    using child_in_rel[OF c]
    by (auto simp: descendants_def findByParent_def intro: trancl_into_trancl)
qed


lemma child_not_descendant_of_sibling:
  assumes d: "distinct (map v_id st)" and a: "acyclic (parentRel st)"
    and c1: "c1 \<in> set (findByParent st i)" and c2: "c2 \<in> set (findByParent st i)"
  shows "c1 \<notin> descendants st (v_id c2)"
proof
  assume "c1 \<in> descendants st (v_id c2)"
  then have t: "(v_id c1, v_id c2) \<in> (parentRel st)\<^sup>+" by (simp add: descendants_def)
  have r1: "(v_id c1, i) \<in> parentRel st" using c1 by (rule child_in_rel)
  have r2: "(v_id c2, i) \<in> parentRel st" using c2 by (rule child_in_rel)
  from t obtain z where z: "(v_id c1, z) \<in> parentRel st" "(z, v_id c2) \<in> (parentRel st)\<^sup>*"
    by (blast dest: tranclD)
  with r1 single_valued_parentRel[OF d] have "z = i" by (auto dest: single_valuedD)
  with z(2) r2 have "(i, i) \<in> (parentRel st)\<^sup>+" by (auto intro: rtrancl_into_trancl1)
  with a show False by (auto simp: acyclic_def)
qed

lemma sibling_subtrees_disjoint:
  assumes d: "distinct (map v_id st)" and a: "acyclic (parentRel st)"
    and c1: "c1 \<in> set (findByParent st i)" and c2: "c2 \<in> set (findByParent st i)"
    and ne: "c1 \<noteq> c2"
  shows "descendants st (v_id c1) \<inter> descendants st (v_id c2) = {}"
proof (rule ccontr)
  assume "descendants st (v_id c1) \<inter> descendants st (v_id c2) \<noteq> {}"
  then obtain v where v: "v \<in> set st" "(v_id v, v_id c1) \<in> (parentRel st)\<^sup>+"
      "(v_id v, v_id c2) \<in> (parentRel st)\<^sup>+"
    by (auto simp: descendants_def)
  have in1: "c1 \<in> set st" and in2: "c2 \<in> set st" using c1 c2 by (auto simp: findByParent_def)
  have idne: "v_id c1 \<noteq> v_id c2"
    using same_id_same_vendor[OF d in1 in2] ne by auto
  from v(2,3) single_valued_confluent[OF single_valued_parentRel[OF d], of "v_id v" "v_id c1" "v_id c2"]
  have "(v_id c1, v_id c2) \<in> (parentRel st)\<^sup>* \<or> (v_id c2, v_id c1) \<in> (parentRel st)\<^sup>*"
    by (simp add: trancl_into_rtrancl)
  with idne have "(v_id c1, v_id c2) \<in> (parentRel st)\<^sup>+ \<or> (v_id c2, v_id c1) \<in> (parentRel st)\<^sup>+"
    by (auto simp: rtrancl_eq_or_trancl)
  then have "c1 \<in> descendants st (v_id c2) \<or> c2 \<in> descendants st (v_id c1)"
    using in1 in2 by (auto simp: descendants_def)
  with child_not_descendant_of_sibling[OF d a c1 c2] child_not_descendant_of_sibling[OF d a c2 c1]
  show False by blast
qed


lemma cyclicStore_loop_empty:
  assumes "subVendorsLoop st ds acc = Some ys"
  shows "st = cyclicStore \<longrightarrow> set ds \<subseteq> set cyclicStore \<longrightarrow> ds = []"
proof (rule subVendorsLoop.raw_induct[where P = "\<lambda>st ds acc ys.
          st = cyclicStore \<longrightarrow> set ds \<subseteq> set cyclicStore \<longrightarrow> ds = []", OF _ assms])
  fix loop st ds acc ys
  assume IH: "\<And>st ds acc ys. loop st ds acc = Some ys \<Longrightarrow>
          st = cyclicStore \<longrightarrow> set ds \<subseteq> set cyclicStore \<longrightarrow> ds = []"
    and step: "(case ds of [] \<Rightarrow> Some acc
      | subVendor # rest \<Rightarrow>
          Option.bind (loop st (findByParent st (v_id subVendor)) [])
           (\<lambda>nestedSubVendors. loop st rest (acc @ [subVendor] @ nestedSubVendors))) = Some ys"
  show "st = cyclicStore \<longrightarrow> set ds \<subseteq> set cyclicStore \<longrightarrow> ds = []"
  proof (intro impI)
    assume st: "st = cyclicStore" and sub: "set ds \<subseteq> set cyclicStore"
    show "ds = []"
    proof (cases ds)
      case Nil
      then show ?thesis .
    next
      case (Cons s rest)
      with step obtain n where n: "loop st (findByParent st (v_id s)) [] = Some n"
        by (auto simp: bind_eq_Some_conv)
      from sub Cons have "s \<in> set cyclicStore" by simp
      then have "findByParent cyclicStore (v_id s) \<noteq> [] \<and>
          set (findByParent cyclicStore (v_id s)) \<subseteq> set cyclicStore"
        by (auto simp: cyclicStore_def findByParent_def mkVendor_def)
      with IH[OF n] st show ?thesis by simp
    qed
  qed
qed

text \<open>
  C2, as stated: \<^verbatim>\<open>getAllSubVendors\<close> terminates on every store, also one whose parent
  pointers form a cycle. On the store where a and b name each other as parent the call
  for a never returns.
\<close>

theorem getAllSubVendors_cycle_counterexample:
  "getAllSubVendors cyclicStore ''a'' = None"
proof (cases "getAllSubVendors cyclicStore ''a''")
  case None
  then show ?thesis .
next
  case (Some ys)
  then have "findByParent cyclicStore ''a'' = []"
    using cyclicStore_loop_empty[of cyclicStore "findByParent cyclicStore ''a''" "[]" ys]
    by (simp add: getAllSubVendors_def findByParent_def)
  then show ?thesis by (simp add: findByParent_def cyclicStore_def mkVendor_def)
qed

text \<open>
  C2, amended: on every store with unique ids whose parent pointers form no cycle,
  \<^verbatim>\<open>getAllSubVendors(vendorId)\<close> returns; what it returns holds exactly the transitive
  descendants of \<open>vendorId\<close>, has no duplicates, and is in depth-first order (each direct
  child followed by the result for that child, children in collection order). The source
  has no depth limit and no visited set, so termination rests on the store being acyclic.
\<close>

theorem getAllSubVendors_acyclic:
  assumes d: "distinct (map v_id st)" and a: "acyclic (parentRel st)"
  shows "\<exists>ys. getAllSubVendors st i = Some ys \<and> set ys = descendants st i \<and> distinct ys
          \<and> ys = concat (map (\<lambda>c. c # the (getAllSubVendors st (v_id c))) (findByParent st i))"
proof -
  have wf: "wf (parentRel st)"
    using finite_parentRel a by (rule finite_acyclic_wf)
  let ?P = "\<lambda>i. \<exists>ys. getAllSubVendors st i = Some ys \<and> set ys = descendants st i \<and> distinct ys
          \<and> ys = concat (map (\<lambda>c. c # the (getAllSubVendors st (v_id c))) (findByParent st i))"
  show "?P i"
  proof (induction i rule: wf_induct_rule[OF wf])
    case (1 i)
    let ?cs = "findByParent st i"
    let ?f = "\<lambda>c. c # the (getAllSubVendors st (v_id c))"
    have ih: "\<exists>ys. getAllSubVendors st (v_id c) = Some ys \<and> set ys = descendants st (v_id c) \<and> distinct ys"
      if "c \<in> set ?cs" for c
      using 1[OF child_in_rel[OF that]] by blast
    have res: "getAllSubVendors st i = Some (concat (map ?f ?cs))"
      unfolding getAllSubVendors_def[of st i]
      by (rule subVendorsLoop_all) (use ih in auto)
    have setf: "set (?f c) = insert c (descendants st (v_id c))" if "c \<in> set ?cs" for c
    proof -
      from ih[OF that] obtain ys where "getAllSubVendors st (v_id c) = Some ys"
          "set ys = descendants st (v_id c)"
        by blast
      then show ?thesis by simp
    qed
    have s: "set (concat (map ?f ?cs)) = descendants st i"
      using setf by (simp add: descendants_unfold[OF d, of i])
    have "distinct st"
      using d by (simp add: distinct_map)
    then have dcs: "distinct ?cs"
      by (simp add: findByParent_def)
    have df: "distinct (?f c)" if "c \<in> set ?cs" for c
    proof -
      from ih[OF that] obtain ys where "getAllSubVendors st (v_id c) = Some ys"
          "set ys = descendants st (v_id c)" "distinct ys"
        by blast
      with child_not_descendant_of_sibling[OF d a that that] show ?thesis by simp
    qed
    have disj: "set (?f c1) \<inter> set (?f c2) = {}"
      if "c1 \<in> set ?cs" "c2 \<in> set ?cs" "c1 \<noteq> c2" for c1 c2
      unfolding setf[OF that(1)] setf[OF that(2)]
      using that(3) sibling_subtrees_disjoint[OF d a that]
        child_not_descendant_of_sibling[OF d a that(1,2)]
        child_not_descendant_of_sibling[OF d a that(2,1)]
      by blast
    have "distinct (concat (map ?f ?cs))"
    proof (rule distinct_concat)
      show "distinct (map ?f ?cs)"
        using dcs by (auto simp: distinct_map inj_on_def)
    next
      fix ys assume "ys \<in> set (map ?f ?cs)"
      then show "distinct ys" using df by auto
    next
      fix ys zs assume yz: "ys \<in> set (map ?f ?cs)" "zs \<in> set (map ?f ?cs)" "ys \<noteq> zs"
      then obtain c1 c2 where c: "c1 \<in> set ?cs" "ys = ?f c1" "c2 \<in> set ?cs" "zs = ?f c2"
        by auto
      with yz(3) have "c1 \<noteq> c2" by auto
      with c show "set ys \<inter> set zs = {}" using disj[of c1 c2] by simp
    qed
    with res s show ?case by simp
  qed
qed


lemma treeStore_distinct: "distinct (map v_id treeStore)"
  by (simp add: treeStore_def mkVendor_def)

lemma treeStore_acyclic: "acyclic (parentRel treeStore)"
proof (rule acyclicI_order)
  fix c p
  let ?depth = "\<lambda>i. if i = ''s'' then 0 else if i = ''c'' then 1 else if i = ''m'' then 3 else (2::nat)"
  assume "(c, p) \<in> parentRel treeStore"
  then show "?depth p < ?depth c"
    by (auto simp: parentRel_def treeStore_def mkVendor_def)
qed

lemma getAllSubVendors_treeStore:
  "getAllSubVendors treeStore ''s'' =
     Some [mkVendor ''c'' CITY (Some ''s''), mkVendor ''u'' SUB (Some ''c''),
           mkVendor ''m'' LOCAL (Some ''u''), mkVendor ''l'' LOCAL (Some ''c'')]"
  by (simp add: getAllSubVendors_def subVendorsLoop_step subVendorsLoop_Nil findByParent_def
        treeStore_def mkVendor_def)

theorem getAllSubVendors_acyclic_witness:
  "distinct (map v_id treeStore) \<and> acyclic (parentRel treeStore) \<and>
   (\<exists>ys. getAllSubVendors treeStore ''s'' = Some ys \<and> set ys = descendants treeStore ''s'' \<and>
      distinct ys \<and> map v_id ys = [''c'', ''u'', ''m'', ''l''])"
proof -
  obtain ys where ys: "getAllSubVendors treeStore ''s'' = Some ys"
      "set ys = descendants treeStore ''s''" "distinct ys"
    using getAllSubVendors_acyclic[OF treeStore_distinct treeStore_acyclic, of "''s''"]
    by blast
  from ys(1) have "ys = the (getAllSubVendors treeStore ''s'')"
    by simp
  then have "map v_id ys = [''c'', ''u'', ''m'', ''l'']"
    by (simp add: getAllSubVendors_treeStore mkVendor_def)
  with ys treeStore_distinct treeStore_acyclic show ?thesis
    by (intro conjI exI[of _ ys]) assumption+
qed

section \<open>Transfer of a vendor\<close>

lemma transferVendor_cache:
  assumes "transferVendor st c vendorId newParentId = Inr (v, st', c')"
  shows "c' = cacheService_del c (hierarchyKey newParentId) \<and>
         parentVendor v = Some newParentId"
  using assms
  by (auto simp: transferVendor_def Let_def idString_def cacheService_del_def fun_eq_iff
      split: option.splits if_splits)

text \<open>
  C3 on the store with SUPER vendors s1 and s2 and the CITY vendor c under s1, both
  hierarchies cached: the transfer of c to s2 succeeds and c's parent is s2, the key of the
  new parent s2 is gone, and the key of the old parent s1 is still in the cache.
\<close>

theorem transferVendor_keeps_old_parent_key:
  "\<exists>v st' c'. transferVendor transferStore transferCache ''c'' ''s2'' = Inr (v, st', c') \<and>
     parentVendor v = Some ''s2'' \<and> findById st' ''c'' = Some v \<and>
     c' ''vendor_hierarchy_s2'' = None \<and> c' ''vendor_hierarchy_s1'' = Some (Some 1)"
  by (simp add: transferVendor_def validateHierarchy_def findById_def transferStore_def
      transferCache_def mkVendor_def saveVendor_def idString_def cacheService_del_def Let_def
      hierarchyKey_def)

section \<open>Reading a hierarchy through the cache\<close>

lemma getVendorHierarchy_reads_cache:
  "getVendorHierarchy st c vendorId =
     Some (Inr (settle (cacheService_get c (hierarchyKey vendorId))), c)"
  by (simp add: getVendorHierarchy_def cacheService_get_def)

lemma cacheVendorHierarchy_stores:
  assumes "cacheVendorHierarchy st c vendorId = Some (Inr h, c')"
  shows "c' (hierarchyKey vendorId) = Some h"
proof -
  from assms obtain r where r: "buildVendorHierarchy st vendorId = Some r"
      and c: "(case r of Inl e \<Rightarrow> Some (Inl e, c)
               | Inr hierarchy \<Rightarrow>
                   Some (Inr hierarchy, cacheService_set c (hierarchyKey vendorId) hierarchy))
              = Some (Inr h, c')"
    by (auto simp: cacheVendorHierarchy_def bind_eq_Some_conv)
  from c show ?thesis
    by (cases r) (auto simp: cacheService_set_def)
qed

text \<open>
  C10: when the hierarchy key of \<open>vendorId\<close> is absent from the cache,
  \<^verbatim>\<open>getVendorHierarchy(vendorId)\<close> returns \<^verbatim>\<open>null\<close> and the cache is as it was, whatever
  the store holds; the pending promise is truthy, so the compute-on-miss call
  \<^verbatim>\<open>cacheVendorHierarchy\<close> is not made: every normal return of that call leaves the key
  stored, and its outcome differs from what \<^verbatim>\<open>getVendorHierarchy\<close> yields.
\<close>

theorem getVendorHierarchy_miss_never_computes:
  assumes "c (hierarchyKey vendorId) = None"
  shows "getVendorHierarchy st c vendorId = Some (Inr None, c) \<and>
         truthy (cacheService_get c (hierarchyKey vendorId)) \<and>
         cacheVendorHierarchy st c vendorId \<noteq> getVendorHierarchy st c vendorId"
proof (intro conjI)
  show r: "getVendorHierarchy st c vendorId = Some (Inr None, c)"
    using assms by (simp add: getVendorHierarchy_reads_cache cacheService_get_def)
  show "truthy (cacheService_get c (hierarchyKey vendorId))"
    by (simp add: cacheService_get_def)
  show "cacheVendorHierarchy st c vendorId \<noteq> getVendorHierarchy st c vendorId"
  proof
    assume "cacheVendorHierarchy st c vendorId = getVendorHierarchy st c vendorId"
    with r have "cacheVendorHierarchy st c vendorId = Some (Inr None, c)" by simp
    from cacheVendorHierarchy_stores[OF this] assms show False by simp
  qed
qed

lemma buildVendorHierarchy_u:
  "buildVendorHierarchy treeStore ''u'' = Some (Inr (Some (Hierarchy (HNode ''u'' ''u'' SUB []))))"
  by (subst buildVendorHierarchy.simps)
     (simp add: findById_def treeStore_def mkVendor_def)

lemma buildVendorHierarchy_c:
  "buildVendorHierarchy treeStore ''c'' = Some (Inr (Some (Hierarchy
      (HNode ''c'' ''c'' CITY [HNode ''u'' ''u'' SUB [], HNode ''l'' ''l'' LOCAL []]))))"
proof -
  have f: "findChildren treeStore ''c'' SUB = [mkVendor ''u'' SUB (Some ''c'')]"
    "findChildren treeStore ''c'' LOCAL = [mkVendor ''l'' LOCAL (Some ''c'')]"
    "findById treeStore ''c'' = Some (mkVendor ''c'' CITY (Some ''s''))"
    by (simp_all add: findChildren_def findById_def treeStore_def mkVendor_def)
  have v: "v_id (mkVendor ''u'' SUB (Some ''c'')) = ''u''"
    by (simp add: mkVendor_def)
  show ?thesis
    by (subst buildVendorHierarchy.simps) (simp add: f v buildVendorHierarchy_u, simp add: mkVendor_def)
qed

lemma buildVendorHierarchy_s:
  "buildVendorHierarchy treeStore ''s'' = Some (Inr (Some (Hierarchy
      (HNode ''s'' ''s'' SUPER
         [HNode ''c'' ''c'' CITY [HNode ''u'' ''u'' SUB [], HNode ''l'' ''l'' LOCAL []]]))))"
proof -
  have f: "findChildren treeStore ''s'' CITY = [mkVendor ''c'' CITY (Some ''s'')]"
    "findById treeStore ''s'' = Some (mkVendor ''s'' SUPER None)"
    by (simp_all add: findChildren_def findById_def treeStore_def mkVendor_def)
  have v: "v_id (mkVendor ''c'' CITY (Some ''s'')) = ''c''"
    by (simp add: mkVendor_def)
  show ?thesis
    by (subst buildVendorHierarchy.simps) (simp add: f v buildVendorHierarchy_c, simp add: mkVendor_def)
qed

theorem getVendorHierarchy_miss_never_computes_witness:
  "emptyCache (hierarchyKey ''s'') = None \<and>
   getVendorHierarchy treeStore emptyCache ''s'' = Some (Inr None, emptyCache) \<and>
   truthy (cacheService_get emptyCache (hierarchyKey ''s'')) \<and>
   cacheVendorHierarchy treeStore emptyCache ''s'' \<noteq> getVendorHierarchy treeStore emptyCache ''s'' \<and>
   fst (the (cacheVendorHierarchy treeStore emptyCache ''s'')) =
     Inr (Some (Hierarchy (HNode ''s'' ''s'' SUPER
         [HNode ''c'' ''c'' CITY [HNode ''u'' ''u'' SUB [], HNode ''l'' ''l'' LOCAL []]])))"
proof -
  have e: "emptyCache (hierarchyKey ''s'') = None"
    by (simp add: emptyCache_def)
  have b: "fst (the (cacheVendorHierarchy treeStore emptyCache ''s'')) =
     Inr (Some (Hierarchy (HNode ''s'' ''s'' SUPER
         [HNode ''c'' ''c'' CITY [HNode ''u'' ''u'' SUB [], HNode ''l'' ''l'' LOCAL []]])))"
    by (simp add: cacheVendorHierarchy_def buildVendorHierarchy_s)
  note t = getVendorHierarchy_miss_never_computes[of emptyCache "''s''" treeStore, OF e]
  show ?thesis
    by (intro conjI e b t[THEN conjunct1] t[THEN conjunct2, THEN conjunct1]
          t[THEN conjunct2, THEN conjunct2])
qed

section \<open>Assignment of vehicles and drivers\<close>

lemma map_d_id_saveDriver: "map d_id (saveDriver ds d) = map d_id ds"
  by (induction ds) (simp_all add: saveDriver_def)

lemma map_vh_id_saveVehicle: "map vh_id (saveVehicle vs v) = map vh_id vs"
  by (induction vs) (simp_all add: saveVehicle_def)

lemma set_saveDriver:
  "d \<in> set ds \<Longrightarrow> d_id d' = d_id d \<Longrightarrow>
     set (saveDriver ds d') = insert d' {x \<in> set ds. d_id x \<noteq> d_id d}"
  by (auto simp: saveDriver_def)

lemma set_saveVehicle:
  "v \<in> set vs \<Longrightarrow> vh_id v' = vh_id v \<Longrightarrow>
     set (saveVehicle vs v') = insert v' {x \<in> set vs. vh_id x \<noteq> vh_id v}"
  by (auto simp: saveVehicle_def)

lemma find_saveDriver:
  "d \<in> set ds \<Longrightarrow> d_id d' = d_id d \<Longrightarrow>
     find (\<lambda>x. d_id x = d_id d) (saveDriver ds d') = Some d'"
  by (induction ds) (auto simp: saveDriver_def)

lemma find_saveVehicle:
  "v \<in> set vs \<Longrightarrow> vh_id v' = vh_id v \<Longrightarrow>
     find (\<lambda>x. vh_id x = vh_id v) (saveVehicle vs v') = Some v'"
  by (induction vs) (auto simp: saveVehicle_def)

lemma same_id_same_driver:
  "distinct (map d_id ds) \<Longrightarrow> x \<in> set ds \<Longrightarrow> y \<in> set ds \<Longrightarrow> d_id x = d_id y \<Longrightarrow> x = y"
  by (metis distinct_map inj_onD)

lemma same_id_same_vehicle:
  "distinct (map vh_id vs) \<Longrightarrow> x \<in> set vs \<Longrightarrow> y \<in> set vs \<Longrightarrow> vh_id x = vh_id y \<Longrightarrow> x = y"
  by (metis distinct_map inj_onD)

lemma unshared_if_bidirectional:
  assumes dd: "distinct (map d_id (drivers s))" and dv: "distinct (map vh_id (vehicles s))"
    and bi: "bidirectional s"
  shows "unshared s"
  unfolding unshared_def
proof (intro conjI ballI impI)
  fix d e assume d: "d \<in> set (drivers s)" and e: "e \<in> set (drivers s)"
    and eq: "assignedVehicle d \<noteq> None \<and> assignedVehicle d = assignedVehicle e"
  from eq have "assignedVehicle d \<noteq> None" by (rule conjunct1)
  then obtain x where x1: "assignedVehicle d = Some x" by blast
  with eq have x: "assignedVehicle d = Some x" "assignedVehicle e = Some x" by metis+
  from bi d x(1) obtain v where v: "v \<in> set (vehicles s)" "vh_id v = x"
      "assignedDriver v = Some (d_id d)"
    unfolding bidirectional_def by blast
  from bi e x(2) obtain w where w: "w \<in> set (vehicles s)" "vh_id w = x"
      "assignedDriver w = Some (d_id e)"
    unfolding bidirectional_def by blast
  from same_id_same_vehicle[OF dv v(1) w(1)] v(2) w(2) have "v = w" by simp
  with v(3) w(3) have "d_id d = d_id e" by simp
  with same_id_same_driver[OF dd d e] show "d = e" by simp
next
  fix v w assume v: "v \<in> set (vehicles s)" and w: "w \<in> set (vehicles s)"
    and eq: "assignedDriver v \<noteq> None \<and> assignedDriver v = assignedDriver w"
  from eq have "assignedDriver v \<noteq> None" by (rule conjunct1)
  then obtain x where x1: "assignedDriver v = Some x" by blast
  with eq have x: "assignedDriver v = Some x" "assignedDriver w = Some x" by metis+
  from bi v x(1) obtain d where d: "d \<in> set (drivers s)" "d_id d = x"
      "assignedVehicle d = Some (vh_id v)"
    unfolding bidirectional_def by blast
  from bi w x(2) obtain e where e: "e \<in> set (drivers s)" "d_id e = x"
      "assignedVehicle e = Some (vh_id w)"
    unfolding bidirectional_def by blast
  from same_id_same_driver[OF dd d(1) e(1)] d(2) e(2) have "d = e" by simp
  with d(3) e(3) have "vh_id v = vh_id w" by simp
  with same_id_same_vehicle[OF dv v w] show "v = w" by simp
qed

lemma assign_preserves_invariant:
  fixes s :: "'v fleet"
  assumes inv: "assignmentInvariant s"
    and d: "d \<in> set (drivers s)" and v: "v \<in> set (vehicles s)"
    and gd: "assignedVehicle d = None \<or> assignedVehicle d = Some (vh_id v)"
    and gv: "assignedDriver v = None \<or> assignedDriver v = Some (d_id d)"
    and ds': "drivers s' = saveDriver (drivers s) (d\<lparr>assignedVehicle := Some (vh_id v)\<rparr>)"
    and vs': "vehicles s' = saveVehicle (vehicles s) (v\<lparr>assignedDriver := Some (d_id d)\<rparr>)"
  shows "assignmentInvariant (s' :: 'v fleet)"
proof -
  let ?d' = "d\<lparr>assignedVehicle := Some (vh_id v)\<rparr>"
  let ?v' = "v\<lparr>assignedDriver := Some (d_id d)\<rparr>"
  from inv have dd: "distinct (map d_id (drivers s))" and dv: "distinct (map vh_id (vehicles s))"
    and bi: "bidirectional s"
    by (simp_all add: assignmentInvariant_def)
  have sd: "set (drivers s') = insert ?d' {x \<in> set (drivers s). d_id x \<noteq> d_id d}"
    unfolding ds' by (rule set_saveDriver[OF d]) simp
  have sv: "set (vehicles s') = insert ?v' {x \<in> set (vehicles s). vh_id x \<noteq> vh_id v}"
    unfolding vs' by (rule set_saveVehicle[OF v]) simp
  have dd': "distinct (map d_id (drivers s'))"
    unfolding ds' map_d_id_saveDriver by (rule dd)
  have dv': "distinct (map vh_id (vehicles s'))"
    unfolding vs' map_vh_id_saveVehicle by (rule dv)
  have bi': "bidirectional s'"
    unfolding bidirectional_def
  proof (intro conjI ballI allI impI)
    fix e x assume e: "e \<in> set (drivers s')" and x: "assignedVehicle e = Some x"
    show "\<exists>w \<in> set (vehicles s'). vh_id w = x \<and> assignedDriver w = Some (d_id e)"
    proof (cases "e = ?d'")
      case True
      with x have "vh_id ?v' = x \<and> assignedDriver ?v' = Some (d_id e)" by simp
      moreover have "?v' \<in> set (vehicles s')" unfolding sv by simp
      ultimately show ?thesis by blast
    next
      case False
      with e sd have e0: "e \<in> set (drivers s)" "d_id e \<noteq> d_id d" by auto
      with bi x obtain w where w: "w \<in> set (vehicles s)" "vh_id w = x"
          "assignedDriver w = Some (d_id e)"
        unfolding bidirectional_def by blast
      have "vh_id w \<noteq> vh_id v"
      proof
        assume "vh_id w = vh_id v"
        with same_id_same_vehicle[OF dv w(1) v] have "w = v" by simp
        with w(3) gv e0(2) show False by auto
      qed
      with w(1) have "w \<in> set (vehicles s')" unfolding sv by simp
      with w(2,3) show ?thesis by blast
    qed
  next
    fix w x assume w: "w \<in> set (vehicles s')" and x: "assignedDriver w = Some x"
    show "\<exists>e \<in> set (drivers s'). d_id e = x \<and> assignedVehicle e = Some (vh_id w)"
    proof (cases "w = ?v'")
      case True
      with x have "d_id ?d' = x \<and> assignedVehicle ?d' = Some (vh_id w)" by simp
      moreover have "?d' \<in> set (drivers s')" unfolding sd by simp
      ultimately show ?thesis by blast
    next
      case False
      with w sv have w0: "w \<in> set (vehicles s)" "vh_id w \<noteq> vh_id v" by auto
      with bi x obtain e where e: "e \<in> set (drivers s)" "d_id e = x"
          "assignedVehicle e = Some (vh_id w)"
        unfolding bidirectional_def by blast
      have "d_id e \<noteq> d_id d"
      proof
        assume "d_id e = d_id d"
        with same_id_same_driver[OF dd e(1) d] have "e = d" by simp
        with e(3) gd w0(2) show False by auto
      qed
      with e(1) have "e \<in> set (drivers s')" unfolding sd by simp
      with e(2,3) show ?thesis by blast
    qed
  qed
  from dd' dv' bi' unshared_if_bidirectional[OF dd' dv' bi'] show ?thesis
    by (simp add: assignmentInvariant_def)
qed


lemma find_SomeD: "find P xs = Some x \<Longrightarrow> x \<in> set xs \<and> P x"
  by (auto simp: find_Some_iff in_set_conv_nth)

lemma assignVehicleToDriver_success:
  assumes ok: "statusCode (fst (assignVehicleToDriver reqVendor driverId vehicleId s)) = 200"
  obtains d v where
    "find (\<lambda>d. d_id d = driverId \<and> d_vendor d = reqVendor) (drivers s) = Some d"
    "find (\<lambda>v. vh_id v = vehicleId \<and> vh_vendor v = reqVendor) (vehicles s) = Some v"
    "assignedVehicle d = None \<or> assignedVehicle d = Some vehicleId"
    "assignedDriver v = None \<or> assignedDriver v = Some driverId"
    "drivers (snd (assignVehicleToDriver reqVendor driverId vehicleId s)) =
       saveDriver (drivers s) (d\<lparr>assignedVehicle := Some vehicleId\<rparr>)"
    "vehicles (snd (assignVehicleToDriver reqVendor driverId vehicleId s)) =
       saveVehicle (vehicles s) (v\<lparr>assignedDriver := Some driverId\<rparr>)"
proof (cases "find (\<lambda>d. d_id d = driverId \<and> d_vendor d = reqVendor) (drivers s)")
  case None
  with ok show ?thesis by (simp add: assignVehicleToDriver_def)
next
  case d: (Some d)
  show ?thesis
  proof (cases "find (\<lambda>v. vh_id v = vehicleId \<and> vh_vendor v = reqVendor) (vehicles s)")
    case None
    with ok d show ?thesis by (simp add: assignVehicleToDriver_def)
  next
    case v: (Some v)
    from ok d v have g: "assignedVehicle d = None \<or> assignedVehicle d = Some vehicleId"
        "assignedDriver v = None \<or> assignedDriver v = Some driverId"
      by (auto simp: assignVehicleToDriver_def split: if_splits)
    with d v have
      "drivers (snd (assignVehicleToDriver reqVendor driverId vehicleId s)) =
         saveDriver (drivers s) (d\<lparr>assignedVehicle := Some vehicleId\<rparr>)"
      "vehicles (snd (assignVehicleToDriver reqVendor driverId vehicleId s)) =
         saveVehicle (vehicles s) (v\<lparr>assignedDriver := Some driverId\<rparr>)"
      by (auto simp: assignVehicleToDriver_def Let_def)
    with d v g that show ?thesis by blast
  qed
qed

lemma assignDriverToVehicle_success:
  assumes ok: "statusCode (fst (assignDriverToVehicle reqVendor vehicleId driverId s)) = 200"
  obtains d v where
    "find (\<lambda>d. d_id d = driverId \<and> d_vendor d = reqVendor) (drivers s) = Some d"
    "find (\<lambda>v. vh_id v = vehicleId \<and> vh_vendor v = reqVendor) (vehicles s) = Some v"
    "assignedVehicle d = None \<or> assignedVehicle d = Some vehicleId"
    "assignedDriver v = None \<or> assignedDriver v = Some driverId"
    "drivers (snd (assignDriverToVehicle reqVendor vehicleId driverId s)) =
       saveDriver (drivers s) (d\<lparr>assignedVehicle := Some vehicleId\<rparr>)"
    "vehicles (snd (assignDriverToVehicle reqVendor vehicleId driverId s)) =
       saveVehicle (vehicles s) (v\<lparr>assignedDriver := Some driverId\<rparr>)"
proof (cases "find (\<lambda>v. vh_id v = vehicleId \<and> vh_vendor v = reqVendor) (vehicles s)")
  case None
  with ok show ?thesis by (simp add: assignDriverToVehicle_def)
next
  case v: (Some v)
  show ?thesis
  proof (cases "find (\<lambda>d. d_id d = driverId \<and> d_vendor d = reqVendor) (drivers s)")
    case None
    with ok v show ?thesis by (simp add: assignDriverToVehicle_def)
  next
    case d: (Some d)
    from ok d v have g: "assignedVehicle d = None \<or> assignedVehicle d = Some vehicleId"
        "assignedDriver v = None \<or> assignedDriver v = Some driverId"
      by (auto simp: assignDriverToVehicle_def split: if_splits)
    with d v have
      "drivers (snd (assignDriverToVehicle reqVendor vehicleId driverId s)) =
         saveDriver (drivers s) (d\<lparr>assignedVehicle := Some vehicleId\<rparr>)"
      "vehicles (snd (assignDriverToVehicle reqVendor vehicleId driverId s)) =
         saveVehicle (vehicles s) (v\<lparr>assignedDriver := Some driverId\<rparr>)"
      by (auto simp: assignDriverToVehicle_def Let_def)
    with d v g that show ?thesis by blast
  qed
qed

lemma success_assigned:
  assumes d: "find (\<lambda>d. d_id d = driverId \<and> d_vendor d = reqVendor) (drivers s) = Some d"
    and v: "find (\<lambda>v. vh_id v = vehicleId \<and> vh_vendor v = reqVendor) (vehicles s) = Some v"
    and ds': "drivers s' = saveDriver (drivers s) (d\<lparr>assignedVehicle := Some vehicleId\<rparr>)"
    and vs': "vehicles s' = saveVehicle (vehicles s) (v\<lparr>assignedDriver := Some driverId\<rparr>)"
  shows "assigned driverId vehicleId s'"
proof -
  from find_SomeD[OF d] have d0: "d \<in> set (drivers s)" "d_id d = driverId" by simp_all
  from find_SomeD[OF v] have v0: "v \<in> set (vehicles s)" "vh_id v = vehicleId" by simp_all
  have "find (\<lambda>x. d_id x = d_id d) (drivers s') = Some (d\<lparr>assignedVehicle := Some vehicleId\<rparr>)"
    unfolding ds' by (rule find_saveDriver[OF d0(1)]) simp
  moreover have "find (\<lambda>x. vh_id x = vh_id v) (vehicles s') = Some (v\<lparr>assignedDriver := Some driverId\<rparr>)"
    unfolding vs' by (rule find_saveVehicle[OF v0(1)]) simp
  ultimately show ?thesis
    by (simp add: assigned_def d0(2) v0(2))
qed

lemma success_invariant:
  fixes s s' :: "'v fleet"
  assumes inv: "assignmentInvariant s"
    and d: "find (\<lambda>d. d_id d = driverId \<and> d_vendor d = reqVendor) (drivers s) = Some d"
    and v: "find (\<lambda>v. vh_id v = vehicleId \<and> vh_vendor v = reqVendor) (vehicles s) = Some v"
    and gd: "assignedVehicle d = None \<or> assignedVehicle d = Some vehicleId"
    and gv: "assignedDriver v = None \<or> assignedDriver v = Some driverId"
    and ds': "drivers s' = saveDriver (drivers s) (d\<lparr>assignedVehicle := Some vehicleId\<rparr>)"
    and vs': "vehicles s' = saveVehicle (vehicles s) (v\<lparr>assignedDriver := Some driverId\<rparr>)"
  shows "assignmentInvariant s'"
proof -
  from find_SomeD[OF d] have d0: "d \<in> set (drivers s)" "d_id d = driverId" by simp_all
  from find_SomeD[OF v] have v0: "v \<in> set (vehicles s)" "vh_id v = vehicleId" by simp_all
  show ?thesis
    by (rule assign_preserves_invariant[OF inv d0(1) v0(1)])
       (simp_all add: d0(2) v0(2) gd gv ds' vs')
qed

lemma conflicting_rejected:
  assumes "conflicting reqVendor driverId vehicleId s"
  shows "statusCode (fst (assignVehicleToDriver reqVendor driverId vehicleId s)) = 400"
    "snd (assignVehicleToDriver reqVendor driverId vehicleId s) = s"
    "statusCode (fst (assignDriverToVehicle reqVendor vehicleId driverId s)) = 400"
    "snd (assignDriverToVehicle reqVendor vehicleId driverId s) = s"
  using assms
  by (auto simp: conflicting_def assignVehicleToDriver_def assignDriverToVehicle_def
      split: option.splits)

text \<open>
  C4: a successful \<^verbatim>\<open>assignVehicleToDriver\<close> leaves the driver pointing to the vehicle and
  the vehicle pointing to the driver; both handlers answer 400 and change nothing when
  the driver is assigned to a different vehicle or the vehicle to a different driver; and
  a successful run of either handler keeps the assignment invariant.
\<close>

theorem assignment_symmetric_guarded_invariant:
  fixes s :: "'v fleet"
  shows
  "(statusCode (fst (assignVehicleToDriver reqVendor driverId vehicleId s)) = 200 \<longrightarrow>
      assigned driverId vehicleId (snd (assignVehicleToDriver reqVendor driverId vehicleId s))) \<and>
   (conflicting reqVendor driverId vehicleId s \<longrightarrow>
      statusCode (fst (assignVehicleToDriver reqVendor driverId vehicleId s)) = 400 \<and>
      snd (assignVehicleToDriver reqVendor driverId vehicleId s) = s \<and>
      statusCode (fst (assignDriverToVehicle reqVendor vehicleId driverId s)) = 400 \<and>
      snd (assignDriverToVehicle reqVendor vehicleId driverId s) = s) \<and>
   (assignmentInvariant s \<and>
    statusCode (fst (assignVehicleToDriver reqVendor driverId vehicleId s)) = 200 \<longrightarrow>
      assignmentInvariant (snd (assignVehicleToDriver reqVendor driverId vehicleId s))) \<and>
   (assignmentInvariant s \<and>
    statusCode (fst (assignDriverToVehicle reqVendor vehicleId driverId s)) = 200 \<longrightarrow>
      assignmentInvariant (snd (assignDriverToVehicle reqVendor vehicleId driverId s)) \<and>
      assigned driverId vehicleId (snd (assignDriverToVehicle reqVendor vehicleId driverId s)))"
proof (intro conjI impI)
  assume ok: "statusCode (fst (assignVehicleToDriver reqVendor driverId vehicleId s)) = 200"
  from ok show "assigned driverId vehicleId (snd (assignVehicleToDriver reqVendor driverId vehicleId s))"
    by (rule assignVehicleToDriver_success) (rule success_assigned)
next
  assume c: "conflicting reqVendor driverId vehicleId s"
  from conflicting_rejected[OF c]
  show "statusCode (fst (assignVehicleToDriver reqVendor driverId vehicleId s)) = 400"
    "snd (assignVehicleToDriver reqVendor driverId vehicleId s) = s"
    "statusCode (fst (assignDriverToVehicle reqVendor vehicleId driverId s)) = 400"
    "snd (assignDriverToVehicle reqVendor vehicleId driverId s) = s"
    by simp_all
next
  assume a: "assignmentInvariant s \<and>
    statusCode (fst (assignVehicleToDriver reqVendor driverId vehicleId s)) = 200"
  then have ok: "statusCode (fst (assignVehicleToDriver reqVendor driverId vehicleId s)) = 200"
    and inv: "assignmentInvariant s" by simp_all
  from ok show "assignmentInvariant (snd (assignVehicleToDriver reqVendor driverId vehicleId s))"
    by (rule assignVehicleToDriver_success) (rule success_invariant[OF inv])
next
  assume a: "assignmentInvariant s \<and>
    statusCode (fst (assignDriverToVehicle reqVendor vehicleId driverId s)) = 200"
  then have ok: "statusCode (fst (assignDriverToVehicle reqVendor vehicleId driverId s)) = 200"
    and inv: "assignmentInvariant s" by simp_all
  from ok show "assignmentInvariant (snd (assignDriverToVehicle reqVendor vehicleId driverId s))"
    by (rule assignDriverToVehicle_success) (rule success_invariant[OF inv])
  from ok show "assigned driverId vehicleId (snd (assignDriverToVehicle reqVendor vehicleId driverId s))"
    by (rule assignDriverToVehicle_success) (rule success_assigned)
qed


lemma sampleFleet_invariant: "assignmentInvariant sampleFleet"
  by (simp add: assignmentInvariant_def bidirectional_def unshared_def sampleFleet_def)

lemma sampleFleet_assign_ok:
  "statusCode (fst (assignVehicleToDriver ''V'' ''d1'' ''v1'' sampleFleet)) = 200"
  "statusCode (fst (assignDriverToVehicle ''V'' ''v1'' ''d1'' sampleFleet)) = 200"
  by (simp_all add: assignVehicleToDriver_def assignDriverToVehicle_def sampleFleet_def Let_def)

lemma sampleFleet_conflict: "conflicting ''V'' ''d1'' ''v2'' sampleFleet"
  by (simp add: conflicting_def sampleFleet_def)

theorem assignment_symmetric_guarded_invariant_witness:
  "assignmentInvariant sampleFleet \<and>
   statusCode (fst (assignVehicleToDriver ''V'' ''d1'' ''v1'' sampleFleet)) = 200 \<and>
   assigned ''d1'' ''v1'' (snd (assignVehicleToDriver ''V'' ''d1'' ''v1'' sampleFleet)) \<and>
   assignmentInvariant (snd (assignVehicleToDriver ''V'' ''d1'' ''v1'' sampleFleet)) \<and>
   statusCode (fst (assignDriverToVehicle ''V'' ''v1'' ''d1'' sampleFleet)) = 200 \<and>
   assignmentInvariant (snd (assignDriverToVehicle ''V'' ''v1'' ''d1'' sampleFleet)) \<and>
   conflicting ''V'' ''d1'' ''v2'' sampleFleet \<and>
   statusCode (fst (assignVehicleToDriver ''V'' ''d1'' ''v2'' sampleFleet)) = 400 \<and>
   snd (assignVehicleToDriver ''V'' ''d1'' ''v2'' sampleFleet) = sampleFleet \<and>
   statusCode (fst (assignDriverToVehicle ''V'' ''v2'' ''d1'' sampleFleet)) = 400 \<and>
   snd (assignDriverToVehicle ''V'' ''v2'' ''d1'' sampleFleet) = sampleFleet"
proof -
  note ok = assignment_symmetric_guarded_invariant[of "''V''" "''d1''" "''v1''" sampleFleet]
  note no = assignment_symmetric_guarded_invariant[of "''V''" "''d1''" "''v2''" sampleFleet]
  from ok sampleFleet_assign_ok sampleFleet_invariant
  have a: "assigned ''d1'' ''v1'' (snd (assignVehicleToDriver ''V'' ''d1'' ''v1'' sampleFleet))"
    and b: "assignmentInvariant (snd (assignVehicleToDriver ''V'' ''d1'' ''v1'' sampleFleet))"
    and c: "assignmentInvariant (snd (assignDriverToVehicle ''V'' ''v1'' ''d1'' sampleFleet))"
    by blast+
  from no sampleFleet_conflict
  have d: "statusCode (fst (assignVehicleToDriver ''V'' ''d1'' ''v2'' sampleFleet)) = 400"
    "snd (assignVehicleToDriver ''V'' ''d1'' ''v2'' sampleFleet) = sampleFleet"
    "statusCode (fst (assignDriverToVehicle ''V'' ''v2'' ''d1'' sampleFleet)) = 400"
    "snd (assignDriverToVehicle ''V'' ''v2'' ''d1'' sampleFleet) = sampleFleet"
    by blast+
  show ?thesis
    by (intro conjI sampleFleet_invariant sampleFleet_assign_ok sampleFleet_conflict a b c d)
qed

section \<open>Deleting vehicles and drivers\<close>

lemma deleteDriver_clears_vehicle:
  assumes d: "find (\<lambda>d. d_id d = driverId \<and> d_vendor d = reqVendor) (drivers s) = Some d"
    and a: "assignedVehicle d = Some vehicleId"
    and w: "w \<in> set (vehicles (snd (deleteDriver reqVendor driverId s)))"
      "vh_id w = vehicleId"
  shows "statusCode (fst (deleteDriver reqVendor driverId s)) = 200 \<and> assignedDriver w = None"
proof -
  from d have ok: "statusCode (fst (deleteDriver reqVendor driverId s)) = 200"
    by (simp add: deleteDriver_def)
  from d a have vs: "vehicles (snd (deleteDriver reqVendor driverId s)) =
      (case find (\<lambda>v. vh_id v = vehicleId) (vehicles s) of
         None \<Rightarrow> vehicles s
       | Some vehicle \<Rightarrow> saveVehicle (vehicles s) (vehicle\<lparr>assignedDriver := None\<rparr>))"
    by (simp add: deleteDriver_def)
  have "assignedDriver w = None"
  proof (cases "find (\<lambda>v. vh_id v = vehicleId) (vehicles s)")
    case None
    with vs w(1) have "w \<in> set (vehicles s)" by simp
    with None w(2) show ?thesis by (auto simp: find_None_iff)
  next
    case (Some v)
    from find_SomeD[OF Some] have v: "vh_id v = vehicleId" by simp
    from vs Some w(1) obtain x where "x \<in> set (vehicles s)"
        "w = (if vh_id x = vh_id v then v\<lparr>assignedDriver := None\<rparr> else x)"
      by (auto simp: saveVehicle_def)
    with w(2) v show ?thesis by (cases "vh_id x = vh_id v") simp_all
  qed
  with ok show ?thesis ..
qed

text \<open>
  C5 on the fleet where driver d2 and vehicle v2 are assigned to each other:
  \<^verbatim>\<open>deleteDriver\<close> of d2 succeeds and leaves vehicle v2 without a driver, as the claim
  says; \<^verbatim>\<open>deleteVehicle\<close> of v2 succeeds and removes the vehicle, but driver d2 still
  points to the deleted vehicle.
\<close>

theorem deleteVehicle_leaves_driver_pointer:
  "statusCode (fst (deleteDriver ''V'' ''d2'' sampleFleet)) = 200 \<and>
   map (\<lambda>v. (vh_id v, assignedDriver v)) (vehicles (snd (deleteDriver ''V'' ''d2'' sampleFleet)))
     = [(''v1'', None), (''v2'', None)] \<and>
   statusCode (fst (deleteVehicle ''v2'' sampleFleet)) = 200 \<and>
   map vh_id (vehicles (snd (deleteVehicle ''v2'' sampleFleet))) = [''v1''] \<and>
   map (\<lambda>d. (d_id d, assignedVehicle d)) (drivers (snd (deleteVehicle ''v2'' sampleFleet)))
     = [(''d1'', None), (''d2'', Some ''v2'')]"
  by (simp add: deleteDriver_def deleteVehicle_def sampleFleet_def saveVehicle_def)

section \<open>Expiry of a document\<close>

lemma msPerDay_pos: "0 < msPerDay"
  by (simp add: msPerDay_def)

lemma diffDays_le:
  "\<lceil>real_of_int k / real_of_int msPerDay\<rceil> \<le> days \<longleftrightarrow> k \<le> days * msPerDay"
proof -
  have "\<lceil>real_of_int k / real_of_int msPerDay\<rceil> \<le> days \<longleftrightarrow>
        real_of_int k / real_of_int msPerDay \<le> real_of_int days"
    by (rule ceiling_le_iff)
  also have "\<dots> \<longleftrightarrow> real_of_int k \<le> real_of_int days * real_of_int msPerDay"
    using msPerDay_pos by (simp add: pos_divide_le_eq)
  also have "\<dots> \<longleftrightarrow> k \<le> days * msPerDay"
    by (metis of_int_le_iff of_int_mult)
  finally show ?thesis .
qed

lemma diffDays_pos:
  "0 < \<lceil>real_of_int k / real_of_int msPerDay\<rceil> \<longleftrightarrow> 0 < k"
  using msPerDay_pos by (simp add: zero_less_divide_iff)

lemma isDocumentExpiringSoon_iff:
  "isDocumentExpiringSoon now date days \<longleftrightarrow> now < date \<and> date \<le> now + days * msPerDay"
  unfolding isDocumentExpiringSoon_def Let_def diffDays_le diffDays_pos
  by auto

text \<open>
  C8: \<^verbatim>\<open>isDocumentExpired(date)\<close> is true exactly when the date is before now;
  \<^verbatim>\<open>isDocumentExpiringSoon(date, 30)\<close> is true exactly when the date is after now and at
  most thirty days ahead; the two exclude each other; a date exactly thirty days ahead is
  expiring soon, the current instant is not.
\<close>

theorem expired_and_expiring_soon:
  "(isDocumentExpired now date \<longleftrightarrow> date < now) \<and>
   (isDocumentExpiringSoon now date 30 \<longleftrightarrow> now < date \<and> date \<le> now + 30 * msPerDay) \<and>
   \<not> (isDocumentExpired now date \<and> isDocumentExpiringSoon now date 30) \<and>
   isDocumentExpiringSoon now (now + 30 * msPerDay) 30 \<and>
   \<not> isDocumentExpiringSoon now (now + 30 * msPerDay + 1) 30 \<and>
   \<not> isDocumentExpiringSoon now now 30"
  by (simp add: isDocumentExpiringSoon_iff isDocumentExpired_def msPerDay_def)

section \<open>Compliance of an entity and the vendor report\<close>

lemma everyDocument_Cons:
  "everyDocument clk (d # ds) n =
     (if isVerified d \<and> \<not> expiredAt (clk n) d
      then everyDocument clk ds (if expiryDate d = None then n else Suc n)
      else (False, if isVerified d \<and> expiryDate d \<noteq> None then Suc n else n))"
  by (simp add: ds_isDocumentExpired_def expiredAt_def split: option.splits)

lemma readIndex_0: "readIndex ds n 0 = n"
  by (simp add: readIndex_def)

lemma readIndex_Suc:
  "readIndex (d # ds) n (Suc i) = readIndex ds (if expiryDate d = None then n else Suc n) i"
  by (simp add: readIndex_def)


lemma all_less_Suc_shift: "(\<forall>i<Suc k. P i) \<longleftrightarrow> P 0 \<and> (\<forall>i<k. P (Suc i))"
  by (auto simp: less_Suc_eq_0_disj)

lemma everyDocument_iff:
  "fst (everyDocument clk ds n) \<longleftrightarrow>
     (\<forall>i<length ds. isVerified (ds ! i) \<and> \<not> expiredAt (clk (readIndex ds n i)) (ds ! i))"
proof (induction ds arbitrary: n)
  case Nil
  show ?case by simp
next
  case (Cons d ds)
  show ?case
    unfolding everyDocument_Cons length_Cons all_less_Suc_shift
    by (simp add: readIndex_0 readIndex_Suc Cons.IH del: everyDocument.simps)
qed


lemma everyDocument_fixed:
  "fst (everyDocument (fixedClock now) ds n) \<longleftrightarrow>
     list_all (\<lambda>doc. isVerified doc \<and> \<not> expiredAt now doc) ds"
  by (induction ds arbitrary: n) (simp_all add: everyDocument_Cons fixedClock_def del: everyDocument.simps(2))





lemma fetched_docs_of_entity:
  assumes "e \<in> set ids"
  shows "filter (\<lambda>doc. entityId doc = e)
           (filter (\<lambda>doc. entityId doc \<in> set ids \<and> entityType doc = t) docs) =
         attachedDocs t e docs"
  using assms by (auto simp: attachedDocs_def intro: filter_cong)

lemma attachedDocs_idem:
  "filter (\<lambda>doc. entityId doc = e) (attachedDocs t e docs) = attachedDocs t e docs"
  by (auto simp: attachedDocs_def intro: filter_cong)

lemma isEntityCompliant_fetched:
  assumes "e \<in> set ids"
  shows "isEntityCompliant clk e
           (filter (\<lambda>doc. entityId doc \<in> set ids \<and> entityType doc = t) docs) n =
         isEntityCompliant clk e (attachedDocs t e docs) n"
  unfolding isEntityCompliant_def Let_def fetched_docs_of_entity[OF assms] attachedDocs_idem
  by simp

lemma isEntityCompliant_attached_fixed:
  "fst (isEntityCompliant (fixedClock now) e (attachedDocs t e docs) n) = compliantAt now t e docs"
  unfolding isEntityCompliant_def Let_def attachedDocs_idem compliantAt_def
  by (simp add: everyDocument_fixed)

lemma countWhere_Cons:
  "countWhere p (x # xs) n =
     ((if fst (p x n) then Suc (fst (countWhere p xs (snd (p x n))))
       else fst (countWhere p xs (snd (p x n)))),
      snd (countWhere p xs (snd (p x n))))"
  by (simp split: prod.splits)

lemma countWhere_cong:
  "(\<And>x m. x \<in> set xs \<Longrightarrow> p x m = q x m) \<Longrightarrow> countWhere p xs n = countWhere q xs n"
  by (induction xs arbitrary: n) (simp_all add: countWhere_Cons del: countWhere.simps(2))



lemma countWhere_bound:
  "(\<And>x m. x \<in> set xs \<Longrightarrow> fst (p x m) \<Longrightarrow> Q x) \<Longrightarrow>
   fst (countWhere p xs n) \<le> length (filter Q xs)"
proof (induction xs arbitrary: n)
  case Nil
  show ?case by simp
next
  case (Cons x xs)
  have "fst (countWhere p xs (snd (p x n))) \<le> length (filter Q xs)"
    by (rule Cons.IH) (rule Cons.prems, simp_all)
  moreover have "fst (p x n) \<Longrightarrow> Q x"
    by (rule Cons.prems) simp_all
  ultimately show ?case
    by (auto simp add: countWhere_Cons simp del: countWhere.simps(2))
qed

lemma countWhere_at_least:
  "(\<And>x m. x \<in> set xs \<Longrightarrow> Q x \<Longrightarrow> fst (p x m)) \<Longrightarrow>
   length (filter Q xs) \<le> fst (countWhere p xs n)"
proof (induction xs arbitrary: n)
  case Nil
  show ?case by simp
next
  case (Cons x xs)
  have "length (filter Q xs) \<le> fst (countWhere p xs (snd (p x n)))"
    by (rule Cons.IH) (rule Cons.prems, simp_all)
  moreover have "Q x \<Longrightarrow> fst (p x n)"
    by (rule Cons.prems) simp_all
  ultimately show ?case
    by (auto simp add: countWhere_Cons simp del: countWhere.simps(2))
qed

lemma countWhere_pure:
  "(\<And>x m. x \<in> set xs \<Longrightarrow> fst (p x m) = P x) \<Longrightarrow>
   fst (countWhere p xs n) = length (filter P xs)"
  by (rule antisym) (auto intro!: countWhere_bound countWhere_at_least)

lemma fst_negated: "fst (negated p x n) = (\<not> fst (p x n))"
  by (simp add: negated_def split: prod.splits)




lemma negated_cong: "p x m = q x m \<Longrightarrow> negated p x m = negated q x m"
  by (simp add: negated_def)

lemma report_on_miss:
  assumes "settle (cacheService_get c (reportKey vendorId)) = None"
  shows "getVendorComplianceReport clk vs ds docs c vendorId =
   (let vs' = filter (\<lambda>v. vh_vendor v = vendorId) vs;
        ds' = filter (\<lambda>d. d_vendor d = vendorId) ds;
        vok = (\<lambda>v. isEntityCompliant clk (vh_id v) (attachedDocs VEHICLE (vh_id v) docs));
        dok = (\<lambda>d. isEntityCompliant clk (d_id d) (attachedDocs DRIVER (d_id d) docs));
        p1 = countWhere vok vs' 0;
        p2 = countWhere (negated vok) vs' (snd p1);
        p3 = countWhere dok ds' (snd p2);
        p4 = countWhere (negated dok) ds' (snd p3);
        rep = \<lparr>r_vehicles = \<lparr>total = length vs', compliant = fst p1, nonCompliant = fst p2\<rparr>,
               r_drivers = \<lparr>total = length ds', compliant = fst p3, nonCompliant = fst p4\<rparr>\<rparr>
    in (rep, cacheService_set c (reportKey vendorId) (Some rep)))"
proof -
  let ?vs = "filter (\<lambda>v. vh_vendor v = vendorId) vs"
  let ?ds = "filter (\<lambda>d. d_vendor d = vendorId) ds"
  let ?vdocs = "filter (\<lambda>doc. entityId doc \<in> set (map vh_id ?vs) \<and> entityType doc = VEHICLE) docs"
  let ?ddocs = "filter (\<lambda>doc. entityId doc \<in> set (map d_id ?ds) \<and> entityType doc = DRIVER) docs"
  have v: "countWhere (\<lambda>v. isEntityCompliant clk (vh_id v) ?vdocs) ?vs n =
           countWhere (\<lambda>v. isEntityCompliant clk (vh_id v) (attachedDocs VEHICLE (vh_id v) docs)) ?vs n" for n
    by (rule countWhere_cong) (rule isEntityCompliant_fetched, simp)
  have nv: "countWhere (negated (\<lambda>v. isEntityCompliant clk (vh_id v) ?vdocs)) ?vs n =
           countWhere (negated (\<lambda>v. isEntityCompliant clk (vh_id v)
              (attachedDocs VEHICLE (vh_id v) docs))) ?vs n" for n
    by (rule countWhere_cong) (rule negated_cong, rule isEntityCompliant_fetched, simp)
  have d: "countWhere (\<lambda>d. isEntityCompliant clk (d_id d) ?ddocs) ?ds n =
           countWhere (\<lambda>d. isEntityCompliant clk (d_id d) (attachedDocs DRIVER (d_id d) docs)) ?ds n" for n
    by (rule countWhere_cong) (rule isEntityCompliant_fetched, simp)
  have nd: "countWhere (negated (\<lambda>d. isEntityCompliant clk (d_id d) ?ddocs)) ?ds n =
           countWhere (negated (\<lambda>d. isEntityCompliant clk (d_id d)
              (attachedDocs DRIVER (d_id d) docs))) ?ds n" for n
    by (rule countWhere_cong) (rule negated_cong, rule isEntityCompliant_fetched, simp)
  show ?thesis
    unfolding getVendorComplianceReport_def Let_def
    by (simp only: assms option.case case_prod_beta v nv d nd)
qed

lemma report_hit:
  assumes "settle (cacheService_get c (reportKey vendorId)) = Some rep"
  shows "getVendorComplianceReport clk vs ds docs c vendorId = (rep, c)"
  using assms by (simp add: getVendorComplianceReport_def)


lemma report_on_miss_fixed:
  assumes "settle (cacheService_get c (reportKey vendorId)) = None"
  shows "fst (getVendorComplianceReport (fixedClock now) vs ds docs c vendorId) =
   \<lparr>r_vehicles =
      \<lparr>total = length (filter (\<lambda>v. vh_vendor v = vendorId) vs),
       compliant = length (filter (\<lambda>v. compliantAt now VEHICLE (vh_id v) docs)
                     (filter (\<lambda>v. vh_vendor v = vendorId) vs)),
       nonCompliant = length (filter (\<lambda>v. \<not> compliantAt now VEHICLE (vh_id v) docs)
                     (filter (\<lambda>v. vh_vendor v = vendorId) vs))\<rparr>,
    r_drivers =
      \<lparr>total = length (filter (\<lambda>d. d_vendor d = vendorId) ds),
       compliant = length (filter (\<lambda>d. compliantAt now DRIVER (d_id d) docs)
                     (filter (\<lambda>d. d_vendor d = vendorId) ds)),
       nonCompliant = length (filter (\<lambda>d. \<not> compliantAt now DRIVER (d_id d) docs)
                     (filter (\<lambda>d. d_vendor d = vendorId) ds))\<rparr>\<rparr>"
proof -
  have 1: "fst (countWhere (\<lambda>v. isEntityCompliant (fixedClock now) (vh_id v)
                  (attachedDocs VEHICLE (vh_id v) docs)) xs n) =
        length (filter (\<lambda>v. compliantAt now VEHICLE (vh_id v) docs) xs)" for xs n
    by (rule countWhere_pure) (rule isEntityCompliant_attached_fixed)
  have 2: "fst (countWhere (negated (\<lambda>v. isEntityCompliant (fixedClock now) (vh_id v)
                  (attachedDocs VEHICLE (vh_id v) docs))) xs n) =
        length (filter (\<lambda>v. \<not> compliantAt now VEHICLE (vh_id v) docs) xs)" for xs n
    by (rule countWhere_pure) (simp add: fst_negated isEntityCompliant_attached_fixed)
  have 3: "fst (countWhere (\<lambda>d. isEntityCompliant (fixedClock now) (d_id d)
                  (attachedDocs DRIVER (d_id d) docs)) xs n) =
        length (filter (\<lambda>d. compliantAt now DRIVER (d_id d) docs) xs)" for xs n
    by (rule countWhere_pure) (rule isEntityCompliant_attached_fixed)
  have 4: "fst (countWhere (negated (\<lambda>d. isEntityCompliant (fixedClock now) (d_id d)
                  (attachedDocs DRIVER (d_id d) docs))) xs n) =
        length (filter (\<lambda>d. \<not> compliantAt now DRIVER (d_id d) docs) xs)" for xs n
    by (rule countWhere_pure) (simp add: fst_negated isEntityCompliant_attached_fixed)
  show ?thesis
    unfolding report_on_miss[OF assms] Let_def fst_conv 1 2 3 4 ..
qed



lemma emptyReportCache_miss: "settle (cacheService_get emptyReportCache k) = None"
  by (simp add: cacheService_get_def emptyReportCache_def)

lemma sampleVehicles_of_V:
  "filter (\<lambda>v. vh_vendor v = ''V'') sampleVehicles =
     [\<lparr>vh_id = ''a'', vh_vendor = ''V'', vh_documents = noVehicleDocuments, assignedDriver = None\<rparr>,
      \<lparr>vh_id = ''b'', vh_vendor = ''V'', vh_documents = noVehicleDocuments, assignedDriver = None\<rparr>]"
  by (simp add: sampleVehicles_def)

lemma sampleVehicles_of_W:
  "filter (\<lambda>v. vh_vendor v = ''W'') sampleVehicles =
     [\<lparr>vh_id = ''z'', vh_vendor = ''W'', vh_documents = noVehicleDocuments, assignedDriver = None\<rparr>]"
  by (simp add: sampleVehicles_def)

lemma replacedVehicles_of_V:
  "filter (\<lambda>v. vh_vendor v = ''V'') replacedVehicles =
     [\<lparr>vh_id = ''n'', vh_vendor = ''V'', vh_documents = noVehicleDocuments, assignedDriver = None\<rparr>]"
  by (simp add: replacedVehicles_def)

lemma sampleDrivers_of_V:
  "filter (\<lambda>d. d_vendor d = ''V'') sampleDrivers =
     [\<lparr>d_id = ''q'', d_vendor = ''V'',
       d_documents =
         \<lparr>drivingLicense = \<lparr>e_number = Some ''DL-1'', e_expiryDate = Some 2000,
                             e_documentUrl = None, e_isVerified = True\<rparr>,
          addressProof = None, identityProof = None\<rparr>,
       assignedVehicle = None\<rparr>]"
  by (simp add: sampleDrivers_def)

lemma sampleDrivers_of_W:
  "filter (\<lambda>d. d_vendor d = ''W'') sampleDrivers =
     [\<lparr>d_id = ''p'', d_vendor = ''W'', d_documents = noDriverDocuments, assignedVehicle = None\<rparr>]"
  by (simp add: sampleDrivers_def)

lemma sampleDocuments_attached:
  "attachedDocs VEHICLE ''a'' sampleDocuments =
     [\<lparr>doc_id = ''1'', entityType = VEHICLE, entityId = ''a'', documentType = ''permit'',
       expiryDate = Some 2000, isVerified = True, doc_vendor = ''V''\<rparr>]"
  "attachedDocs VEHICLE ''b'' sampleDocuments =
     [\<lparr>doc_id = ''2'', entityType = VEHICLE, entityId = ''b'', documentType = ''permit'',
       expiryDate = Some 500, isVerified = True, doc_vendor = ''V''\<rparr>]"
  "attachedDocs VEHICLE ''z'' sampleDocuments = []"
  "attachedDocs VEHICLE ''n'' sampleDocuments = []"
  "attachedDocs DRIVER ''p'' sampleDocuments = []"
  "attachedDocs DRIVER ''q'' sampleDocuments = []"
  by (simp_all add: attachedDocs_def sampleDocuments_def)

lemma sample_compliantAt:
  "compliantAt 400 VEHICLE ''a'' sampleDocuments"
  "compliantAt 400 VEHICLE ''b'' sampleDocuments"
  "compliantAt 1000 VEHICLE ''a'' sampleDocuments"
  "\<not> compliantAt 1000 VEHICLE ''b'' sampleDocuments"
  "\<not> compliantAt now DRIVER ''q'' sampleDocuments"
  "\<not> compliantAt now VEHICLE ''z'' sampleDocuments"
  by (simp_all add: compliantAt_def sampleDocuments_attached expiredAt_def)

lemma report_at_400:
  "getVendorComplianceReport (fixedClock 400) sampleVehicles sampleDrivers sampleDocuments
     emptyReportCache ''V'' =
   (\<lparr>r_vehicles = \<lparr>total = 2, compliant = 2, nonCompliant = 0\<rparr>,
     r_drivers = \<lparr>total = 1, compliant = 0, nonCompliant = 1\<rparr>\<rparr>,
    cacheService_set emptyReportCache (reportKey ''V'')
      (Some \<lparr>r_vehicles = \<lparr>total = 2, compliant = 2, nonCompliant = 0\<rparr>,
              r_drivers = \<lparr>total = 1, compliant = 0, nonCompliant = 1\<rparr>\<rparr>))"
proof -
  have f: "fst (getVendorComplianceReport (fixedClock 400) sampleVehicles sampleDrivers
             sampleDocuments emptyReportCache ''V'') =
      \<lparr>r_vehicles = \<lparr>total = 2, compliant = 2, nonCompliant = 0\<rparr>,
       r_drivers = \<lparr>total = 1, compliant = 0, nonCompliant = 1\<rparr>\<rparr>"
    unfolding report_on_miss_fixed[OF emptyReportCache_miss] sampleVehicles_of_V sampleDrivers_of_V
    by (simp add: sample_compliantAt)
  have s: "snd (getVendorComplianceReport clk vs ds docs emptyReportCache k) =
      cacheService_set emptyReportCache (reportKey k)
        (Some (fst (getVendorComplianceReport clk vs ds docs emptyReportCache k)))" for clk vs ds docs k
    unfolding report_on_miss[OF emptyReportCache_miss] Let_def by simp
  show ?thesis
    by (rule prod_eqI) (simp_all only: s f fst_conv snd_conv)
qed

lemma written_cache_hit:
  "settle (cacheService_get (cacheService_set c k (Some rep)) k) = Some rep"
  by (simp add: cacheService_get_def cacheService_set_def)








lemma countWhereThrowing_Cons_Inr:
  assumes "countWhereThrowing p (x # xs) n = (Inr k, n')"
  obtains b m j where "p x n = (Inr b, m)" "countWhereThrowing p xs m = (Inr j, n')"
    "k = (if b then Suc j else j)"
  using assms by (auto split: prod.splits sum.splits)

lemma countWhereThrowing_bound:
  assumes "\<And>x m. x \<in> set xs \<Longrightarrow> fst (p x m) = Inr True \<Longrightarrow> Q x"
  shows "countWhereThrowing p xs n = (Inr k, n') \<Longrightarrow> k \<le> length (filter Q xs)"
  using assms
proof (induction xs arbitrary: n k)
  case Nil
  then show ?case by simp
next
  case (Cons x xs)
  from Cons.prems(1) obtain b m j where
    px: "p x n = (Inr b, m)" and rest: "countWhereThrowing p xs m = (Inr j, n')"
    and k: "k = (if b then Suc j else j)"
    by (rule countWhereThrowing_Cons_Inr)
  have "j \<le> length (filter Q xs)"
    using rest by (rule Cons.IH) (rule Cons.prems(2), simp_all)
  moreover have "b \<Longrightarrow> Q x"
    using Cons.prems(2)[of x n] px by simp
  ultimately show ?case
    using k by auto
qed

lemma countWhereThrowing_at_least:
  assumes "\<And>x m. x \<in> set xs \<Longrightarrow> Q x \<Longrightarrow> fst (p x m) = Inr True"
  shows "countWhereThrowing p xs n = (Inr k, n') \<Longrightarrow> length (filter Q xs) \<le> k"
  using assms
proof (induction xs arbitrary: n k)
  case Nil
  then show ?case by simp
next
  case (Cons x xs)
  from Cons.prems(1) obtain b m j where
    px: "p x n = (Inr b, m)" and rest: "countWhereThrowing p xs m = (Inr j, n')"
    and k: "k = (if b then Suc j else j)"
    by (rule countWhereThrowing_Cons_Inr)
  have "length (filter Q xs) \<le> j"
    using rest by (rule Cons.IH) (rule Cons.prems(2), simp_all)
  moreover have "Q x \<Longrightarrow> b"
    using Cons.prems(2)[of x n] px by simp
  ultimately show ?case
    using k by auto
qed

lemma legacy_noVehicleDocuments:
  "legacyEvery clk (vehicleValues noVehicleDocuments) n = (Inr False, n)"
  "legacySome clk (vehicleValues noVehicleDocuments) n = (Inr True, n)"
  by (simp_all add: vehicleValues_def noVehicleDocuments_def noEntry_def)

lemma legacy_noDriverDocuments:
  "legacyEvery clk (driverValues noDriverDocuments) n = (Inr False, n)"
  "legacySome clk (driverValues noDriverDocuments) n = (Inr True, n)"
  by (simp_all add: driverValues_def noDriverDocuments_def noEntry_def)

lemma getComplianceReports_Success:
  assumes "getComplianceReports clk vs ds vendorId = Success st rep"
  obtains n0 n1 n2 n3 n4 where
    "countWhereThrowing (\<lambda>v. legacyEvery clk (vehicleValues (vh_documents v)))
       (filter (\<lambda>v. vh_vendor v = vendorId) vs) n0 = (Inr (compliant (r_vehicles rep)), n1)"
    "countWhereThrowing (\<lambda>v. legacySome clk (vehicleValues (vh_documents v)))
       (filter (\<lambda>v. vh_vendor v = vendorId) vs) n1 = (Inr (nonCompliant (r_vehicles rep)), n2)"
    "countWhereThrowing (\<lambda>d. legacyEvery clk (driverValues (d_documents d)))
       (filter (\<lambda>d. d_vendor d = vendorId) ds) n2 = (Inr (compliant (r_drivers rep)), n3)"
    "countWhereThrowing (\<lambda>d. legacySome clk (driverValues (d_documents d)))
       (filter (\<lambda>d. d_vendor d = vendorId) ds) n3 = (Inr (nonCompliant (r_drivers rep)), n4)"
    "total (r_vehicles rep) = length (filter (\<lambda>v. vh_vendor v = vendorId) vs)"
    "total (r_drivers rep) = length (filter (\<lambda>d. d_vendor d = vendorId) ds)"
    "st = 200"
  using assms unfolding getComplianceReports_def Let_def
  by (auto split: prod.splits sum.splits)


lemma isEntityCompliant_attached_nonempty:
  "fst (isEntityCompliant clk e (attachedDocs t e docs) m) \<Longrightarrow> attachedDocs t e docs \<noteq> []"
  by (auto simp: isEntityCompliant_def)

lemma report_zero_documents:
  assumes m: "settle (cacheService_get c (reportKey vendorId)) = None"
  shows "compliant (r_vehicles (fst (getVendorComplianceReport clk vs ds docs c vendorId))) \<le>
      length (filter (\<lambda>v. vh_vendor v = vendorId \<and> attachedDocs VEHICLE (vh_id v) docs \<noteq> []) vs)"
    and "length (filter (\<lambda>v. vh_vendor v = vendorId \<and> attachedDocs VEHICLE (vh_id v) docs = []) vs) \<le>
      nonCompliant (r_vehicles (fst (getVendorComplianceReport clk vs ds docs c vendorId)))"
    and "compliant (r_drivers (fst (getVendorComplianceReport clk vs ds docs c vendorId))) \<le>
      length (filter (\<lambda>d. d_vendor d = vendorId \<and> attachedDocs DRIVER (d_id d) docs \<noteq> []) ds)"
    and "length (filter (\<lambda>d. d_vendor d = vendorId \<and> attachedDocs DRIVER (d_id d) docs = []) ds) \<le>
      nonCompliant (r_drivers (fst (getVendorComplianceReport clk vs ds docs c vendorId)))"
proof -
  have f: "filter (\<lambda>x. P x \<and> Q x) xs = filter Q (filter P xs)" for P Q and xs :: "'a list"
    by simp
  show "compliant (r_vehicles (fst (getVendorComplianceReport clk vs ds docs c vendorId))) \<le>
      length (filter (\<lambda>v. vh_vendor v = vendorId \<and> attachedDocs VEHICLE (vh_id v) docs \<noteq> []) vs)"
    unfolding report_on_miss[OF m] Let_def f
    by (simp only: fst_conv report.simps counts.simps)
       (rule countWhere_bound, erule isEntityCompliant_attached_nonempty)
  show "length (filter (\<lambda>v. vh_vendor v = vendorId \<and> attachedDocs VEHICLE (vh_id v) docs = []) vs) \<le>
      nonCompliant (r_vehicles (fst (getVendorComplianceReport clk vs ds docs c vendorId)))"
    unfolding report_on_miss[OF m] Let_def f
    by (simp only: fst_conv report.simps counts.simps)
       (rule countWhere_at_least, simp add: fst_negated isEntityCompliant_def)
  show "compliant (r_drivers (fst (getVendorComplianceReport clk vs ds docs c vendorId))) \<le>
      length (filter (\<lambda>d. d_vendor d = vendorId \<and> attachedDocs DRIVER (d_id d) docs \<noteq> []) ds)"
    unfolding report_on_miss[OF m] Let_def f
    by (simp only: fst_conv report.simps counts.simps)
       (rule countWhere_bound, erule isEntityCompliant_attached_nonempty)
  show "length (filter (\<lambda>d. d_vendor d = vendorId \<and> attachedDocs DRIVER (d_id d) docs = []) ds) \<le>
      nonCompliant (r_drivers (fst (getVendorComplianceReport clk vs ds docs c vendorId)))"
    unfolding report_on_miss[OF m] Let_def f
    by (simp only: fst_conv report.simps counts.simps)
       (rule countWhere_at_least, simp add: fst_negated isEntityCompliant_def)
qed

lemma legacy_counts_document_less:
  assumes s: "getComplianceReports clk vs ds vendorId = Success st rep"
  shows "compliant (r_vehicles rep) \<le>
      length (filter (\<lambda>v. vh_vendor v = vendorId \<and> vh_documents v \<noteq> noVehicleDocuments) vs)"
    and "length (filter (\<lambda>v. vh_vendor v = vendorId \<and> vh_documents v = noVehicleDocuments) vs) \<le>
      nonCompliant (r_vehicles rep)"
    and "compliant (r_drivers rep) \<le>
      length (filter (\<lambda>d. d_vendor d = vendorId \<and> d_documents d \<noteq> noDriverDocuments) ds)"
    and "length (filter (\<lambda>d. d_vendor d = vendorId \<and> d_documents d = noDriverDocuments) ds) \<le>
      nonCompliant (r_drivers rep)"
proof -
  have f: "filter (\<lambda>x. P x \<and> Q x) xs = filter Q (filter P xs)" for P Q and xs :: "'a list"
    by simp
  from s obtain n0 n1 n2 n3 n4 where
    1: "countWhereThrowing (\<lambda>v. legacyEvery clk (vehicleValues (vh_documents v)))
       (filter (\<lambda>v. vh_vendor v = vendorId) vs) n0 = (Inr (compliant (r_vehicles rep)), n1)" and
    2: "countWhereThrowing (\<lambda>v. legacySome clk (vehicleValues (vh_documents v)))
       (filter (\<lambda>v. vh_vendor v = vendorId) vs) n1 = (Inr (nonCompliant (r_vehicles rep)), n2)" and
    3: "countWhereThrowing (\<lambda>d. legacyEvery clk (driverValues (d_documents d)))
       (filter (\<lambda>d. d_vendor d = vendorId) ds) n2 = (Inr (compliant (r_drivers rep)), n3)" and
    4: "countWhereThrowing (\<lambda>d. legacySome clk (driverValues (d_documents d)))
       (filter (\<lambda>d. d_vendor d = vendorId) ds) n3 = (Inr (nonCompliant (r_drivers rep)), n4)"
    by (rule getComplianceReports_Success)
  show "compliant (r_vehicles rep) \<le>
      length (filter (\<lambda>v. vh_vendor v = vendorId \<and> vh_documents v \<noteq> noVehicleDocuments) vs)"
    unfolding f
    by (rule countWhereThrowing_bound[OF _ 1]) (auto simp: legacy_noVehicleDocuments)
  show "length (filter (\<lambda>v. vh_vendor v = vendorId \<and> vh_documents v = noVehicleDocuments) vs) \<le>
      nonCompliant (r_vehicles rep)"
    unfolding f
    by (rule countWhereThrowing_at_least[OF _ 2]) (simp add: legacy_noVehicleDocuments)
  show "compliant (r_drivers rep) \<le>
      length (filter (\<lambda>d. d_vendor d = vendorId \<and> d_documents d \<noteq> noDriverDocuments) ds)"
    unfolding f
    by (rule countWhereThrowing_bound[OF _ 3]) (auto simp: legacy_noDriverDocuments)
  show "length (filter (\<lambda>d. d_vendor d = vendorId \<and> d_documents d = noDriverDocuments) ds) \<le>
      nonCompliant (r_drivers rep)"
    unfolding f
    by (rule countWhereThrowing_at_least[OF _ 4]) (simp add: legacy_noDriverDocuments)
qed

lemma legacy_report_of_W:
  "getComplianceReports clk sampleVehicles sampleDrivers ''W'' =
     Success 200 \<lparr>r_vehicles = \<lparr>total = 1, compliant = 0, nonCompliant = 1\<rparr>,
                  r_drivers = \<lparr>total = 1, compliant = 0, nonCompliant = 1\<rparr>\<rparr>"
  unfolding getComplianceReports_def Let_def sampleVehicles_of_W sampleDrivers_of_W
  by (simp add: legacy_noVehicleDocuments legacy_noDriverDocuments)

text \<open>
  The legacy report for the vendor of driver q, whose licence is verified and unexpired:
  \<^verbatim>\<open>every\<close> goes on to the address proof, which is undefined, and the handler answers 500.
\<close>

lemma getComplianceReports_verified_licence_fails:
  "getComplianceReports (fixedClock 1000) sampleVehicles sampleDrivers ''V'' =
     Failure 500 ''Error getting compliance reports''"
  unfolding getComplianceReports_def Let_def sampleVehicles_of_V sampleDrivers_of_V
  by (simp add: legacy_noVehicleDocuments driverValues_def proofValue_def fixedClock_def)

text \<open>
  C6, as stated: the legacy report does not count an entity without documents as compliant.
  The vendor W has one vehicle and one driver, both created without documents; the
  embedded entries they carry by default are unverified, and the legacy report answers
  200 with both counted non-compliant and none compliant. And the vendor-level report
  returns a cached report whatever the vendor's entities are now: after the report of the
  instant 400, with two compliant vehicles, was cached, and the two vehicles were replaced
  by the single vehicle n without any document, the report still counts two compliant
  vehicles.
\<close>

theorem getComplianceReports_zero_documents_counterexample:
  "map vh_documents (filter (\<lambda>v. vh_vendor v = ''W'') sampleVehicles) = [noVehicleDocuments] \<and>
   map d_documents (filter (\<lambda>d. d_vendor d = ''W'') sampleDrivers) = [noDriverDocuments] \<and>
   getComplianceReports (fixedClock 1000) sampleVehicles sampleDrivers ''W'' =
     Success 200 \<lparr>r_vehicles = \<lparr>total = 1, compliant = 0, nonCompliant = 1\<rparr>,
                  r_drivers = \<lparr>total = 1, compliant = 0, nonCompliant = 1\<rparr>\<rparr> \<and>
   map vh_id (filter (\<lambda>v. vh_vendor v = ''V'') replacedVehicles) = [''n''] \<and>
   attachedDocs VEHICLE ''n'' sampleDocuments = [] \<and>
   r_vehicles (fst (getVendorComplianceReport (fixedClock 1000) replacedVehicles sampleDrivers
      sampleDocuments
      (snd (getVendorComplianceReport (fixedClock 400) sampleVehicles sampleDrivers
              sampleDocuments emptyReportCache ''V''))
      ''V'')) =
     \<lparr>total = 2, compliant = 2, nonCompliant = 0\<rparr>"
proof (intro conjI)
  show "map vh_documents (filter (\<lambda>v. vh_vendor v = ''W'') sampleVehicles) = [noVehicleDocuments]"
    by (simp add: sampleVehicles_of_W)
  show "map d_documents (filter (\<lambda>d. d_vendor d = ''W'') sampleDrivers) = [noDriverDocuments]"
    by (simp add: sampleDrivers_of_W)
  show "getComplianceReports (fixedClock 1000) sampleVehicles sampleDrivers ''W'' =
     Success 200 \<lparr>r_vehicles = \<lparr>total = 1, compliant = 0, nonCompliant = 1\<rparr>,
                  r_drivers = \<lparr>total = 1, compliant = 0, nonCompliant = 1\<rparr>\<rparr>"
    by (rule legacy_report_of_W)
  show "map vh_id (filter (\<lambda>v. vh_vendor v = ''V'') replacedVehicles) = [''n'']"
    by (simp add: replacedVehicles_of_V)
  show "attachedDocs VEHICLE ''n'' sampleDocuments = []"
    by (rule sampleDocuments_attached)
  show "r_vehicles (fst (getVendorComplianceReport (fixedClock 1000) replacedVehicles sampleDrivers
      sampleDocuments
      (snd (getVendorComplianceReport (fixedClock 400) sampleVehicles sampleDrivers
              sampleDocuments emptyReportCache ''V''))
      ''V'')) =
     \<lparr>total = 2, compliant = 2, nonCompliant = 0\<rparr>"
    unfolding report_at_400 snd_conv
    by (simp add: report_hit[OF written_cache_hit])
qed

text \<open>
  C6, amended: \<^verbatim>\<open>isEntityCompliant(entityId, documents)\<close> is true exactly when some document
  is attached to the entity and every attached document is verified and not expired at the
  clock reading it is compared with (one reading for each dated document, in order); when
  the readings all give the same instant, exactly when some document is attached and every
  attached document is verified and unexpired at that instant. For an entity without
  documents it is false and reads no clock. So whenever the vendor-level report is computed
  (no report is cached for the vendor), each vehicle and driver of the vendor without
  documents is counted non-compliant and none is counted compliant. The legacy report of the
  vendor controller, whenever it answers 200, likewise counts each vehicle and driver
  created without documents as non-compliant and none as compliant: the embedded entries
  are unverified by default, so nothing is compliant by vacuous truth.
\<close>

theorem zero_documents_never_compliant:
  "(fst (isEntityCompliant clk e docs n) \<longleftrightarrow>
      (let own = filter (\<lambda>doc. entityId doc = e) docs
       in own \<noteq> [] \<and>
          (\<forall>i < length own.
             isVerified (own ! i) \<and> \<not> expiredAt (clk (readIndex own n i)) (own ! i)))) \<and>
   (fst (isEntityCompliant (fixedClock now) e docs n) \<longleftrightarrow>
      filter (\<lambda>doc. entityId doc = e) docs \<noteq> [] \<and>
      list_all (\<lambda>doc. isVerified doc \<and> \<not> expiredAt now doc)
        (filter (\<lambda>doc. entityId doc = e) docs)) \<and>
   (filter (\<lambda>doc. entityId doc = e) docs = [] \<longrightarrow> isEntityCompliant clk e docs n = (False, n)) \<and>
   (settle (cacheService_get c (reportKey vendorId)) = None \<longrightarrow>
      compliant (r_vehicles (fst (getVendorComplianceReport clk vs ds docs c vendorId))) \<le>
        length (filter (\<lambda>v. vh_vendor v = vendorId \<and> attachedDocs VEHICLE (vh_id v) docs \<noteq> []) vs) \<and>
      length (filter (\<lambda>v. vh_vendor v = vendorId \<and> attachedDocs VEHICLE (vh_id v) docs = []) vs) \<le>
        nonCompliant (r_vehicles (fst (getVendorComplianceReport clk vs ds docs c vendorId))) \<and>
      compliant (r_drivers (fst (getVendorComplianceReport clk vs ds docs c vendorId))) \<le>
        length (filter (\<lambda>d. d_vendor d = vendorId \<and> attachedDocs DRIVER (d_id d) docs \<noteq> []) ds) \<and>
      length (filter (\<lambda>d. d_vendor d = vendorId \<and> attachedDocs DRIVER (d_id d) docs = []) ds) \<le>
        nonCompliant (r_drivers (fst (getVendorComplianceReport clk vs ds docs c vendorId)))) \<and>
   (getComplianceReports clk vs ds vendorId = Success 200 rep \<longrightarrow>
      compliant (r_vehicles rep) \<le>
        length (filter (\<lambda>v. vh_vendor v = vendorId \<and> vh_documents v \<noteq> noVehicleDocuments) vs) \<and>
      length (filter (\<lambda>v. vh_vendor v = vendorId \<and> vh_documents v = noVehicleDocuments) vs) \<le>
        nonCompliant (r_vehicles rep) \<and>
      compliant (r_drivers rep) \<le>
        length (filter (\<lambda>d. d_vendor d = vendorId \<and> d_documents d \<noteq> noDriverDocuments) ds) \<and>
      length (filter (\<lambda>d. d_vendor d = vendorId \<and> d_documents d = noDriverDocuments) ds) \<le>
        nonCompliant (r_drivers rep))"
proof (intro conjI impI)
  show "fst (isEntityCompliant clk e docs n) \<longleftrightarrow>
      (let own = filter (\<lambda>doc. entityId doc = e) docs
       in own \<noteq> [] \<and>
          (\<forall>i < length own.
             isVerified (own ! i) \<and> \<not> expiredAt (clk (readIndex own n i)) (own ! i)))"
    unfolding isEntityCompliant_def Let_def
    by (simp add: everyDocument_iff)
  show "fst (isEntityCompliant (fixedClock now) e docs n) \<longleftrightarrow>
      filter (\<lambda>doc. entityId doc = e) docs \<noteq> [] \<and>
      list_all (\<lambda>doc. isVerified doc \<and> \<not> expiredAt now doc)
        (filter (\<lambda>doc. entityId doc = e) docs)"
    unfolding isEntityCompliant_def Let_def
    by (simp add: everyDocument_fixed)
next
  assume "filter (\<lambda>doc. entityId doc = e) docs = []"
  then show "isEntityCompliant clk e docs n = (False, n)"
    by (simp add: isEntityCompliant_def)
next
  assume m: "settle (cacheService_get c (reportKey vendorId)) = None"
  show "compliant (r_vehicles (fst (getVendorComplianceReport clk vs ds docs c vendorId))) \<le>
        length (filter (\<lambda>v. vh_vendor v = vendorId \<and> attachedDocs VEHICLE (vh_id v) docs \<noteq> []) vs)"
    by (rule report_zero_documents[OF m])
  show "length (filter (\<lambda>v. vh_vendor v = vendorId \<and> attachedDocs VEHICLE (vh_id v) docs = []) vs) \<le>
        nonCompliant (r_vehicles (fst (getVendorComplianceReport clk vs ds docs c vendorId)))"
    by (rule report_zero_documents[OF m])
  show "compliant (r_drivers (fst (getVendorComplianceReport clk vs ds docs c vendorId))) \<le>
        length (filter (\<lambda>d. d_vendor d = vendorId \<and> attachedDocs DRIVER (d_id d) docs \<noteq> []) ds)"
    by (rule report_zero_documents[OF m])
  show "length (filter (\<lambda>d. d_vendor d = vendorId \<and> attachedDocs DRIVER (d_id d) docs = []) ds) \<le>
        nonCompliant (r_drivers (fst (getVendorComplianceReport clk vs ds docs c vendorId)))"
    by (rule report_zero_documents[OF m])
next
  assume s: "getComplianceReports clk vs ds vendorId = Success 200 rep"
  show "compliant (r_vehicles rep) \<le>
        length (filter (\<lambda>v. vh_vendor v = vendorId \<and> vh_documents v \<noteq> noVehicleDocuments) vs)"
    by (rule legacy_counts_document_less[OF s])
  show "length (filter (\<lambda>v. vh_vendor v = vendorId \<and> vh_documents v = noVehicleDocuments) vs) \<le>
        nonCompliant (r_vehicles rep)"
    by (rule legacy_counts_document_less[OF s])
  show "compliant (r_drivers rep) \<le>
        length (filter (\<lambda>d. d_vendor d = vendorId \<and> d_documents d \<noteq> noDriverDocuments) ds)"
    by (rule legacy_counts_document_less[OF s])
  show "length (filter (\<lambda>d. d_vendor d = vendorId \<and> d_documents d = noDriverDocuments) ds) \<le>
        nonCompliant (r_drivers rep)"
    by (rule legacy_counts_document_less[OF s])
qed


theorem zero_documents_never_compliant_witness:
  "fst (isEntityCompliant (fixedClock 1000) ''a'' sampleDocuments 0) \<and>
   filter (\<lambda>doc. entityId doc = ''z'') sampleDocuments = [] \<and>
   isEntityCompliant (fixedClock 1000) ''z'' sampleDocuments 0 = (False, 0) \<and>
   settle (cacheService_get emptyReportCache (reportKey ''W'')) = None \<and>
   compliant (r_vehicles (fst (getVendorComplianceReport (fixedClock 1000) sampleVehicles
      sampleDrivers sampleDocuments emptyReportCache ''W''))) = 0 \<and>
   1 \<le> nonCompliant (r_vehicles (fst (getVendorComplianceReport (fixedClock 1000) sampleVehicles
      sampleDrivers sampleDocuments emptyReportCache ''W''))) \<and>
   getComplianceReports (fixedClock 1000) sampleVehicles sampleDrivers ''W'' =
     Success 200 \<lparr>r_vehicles = \<lparr>total = 1, compliant = 0, nonCompliant = 1\<rparr>,
                  r_drivers = \<lparr>total = 1, compliant = 0, nonCompliant = 1\<rparr>\<rparr> \<and>
   length (filter (\<lambda>v. vh_vendor v = ''W'' \<and> vh_documents v = noVehicleDocuments) sampleVehicles) \<le>
     nonCompliant (r_vehicles
       \<lparr>r_vehicles = \<lparr>total = 1, compliant = 0, nonCompliant = 1\<rparr>,
        r_drivers = \<lparr>total = 1, compliant = 0, nonCompliant = 1\<rparr>\<rparr>)"
proof -
  let ?rep = "\<lparr>r_vehicles = \<lparr>total = 1, compliant = 0, nonCompliant = 1\<rparr>,
               r_drivers = \<lparr>total = 1, compliant = 0, nonCompliant = 1\<rparr>\<rparr>"
  note a = zero_documents_never_compliant[where clk = "fixedClock 1000" and e = "''a''"
      and docs = sampleDocuments and n = 0, THEN conjunct1, unfolded Let_def]
  note z = zero_documents_never_compliant[where clk = "fixedClock 1000" and e = "''z''"
      and docs = sampleDocuments and n = 0 and c = emptyReportCache and vendorId = "''W''"
      and vs = sampleVehicles and ds = sampleDrivers and rep = ?rep,
      THEN conjunct2, THEN conjunct2]
  have own: "filter (\<lambda>doc. entityId doc = ''a'') sampleDocuments =
     [\<lparr>doc_id = ''1'', entityType = VEHICLE, entityId = ''a'', documentType = ''permit'',
       expiryDate = Some 2000, isVerified = True, doc_vendor = ''V''\<rparr>]"
    by (simp add: sampleDocuments_def)
  have "filter (\<lambda>doc. entityId doc = ''a'') sampleDocuments \<noteq> [] \<and>
    (\<forall>i < length (filter (\<lambda>doc. entityId doc = ''a'') sampleDocuments).
       isVerified (filter (\<lambda>doc. entityId doc = ''a'') sampleDocuments ! i) \<and>
       \<not> expiredAt (fixedClock 1000
            (readIndex (filter (\<lambda>doc. entityId doc = ''a'') sampleDocuments) 0 i))
          (filter (\<lambda>doc. entityId doc = ''a'') sampleDocuments ! i))"
    unfolding own by (simp add: expiredAt_def fixedClock_def)
  with a have ca: "fst (isEntityCompliant (fixedClock 1000) ''a'' sampleDocuments 0)"
    by (rule iffD2)
  have none: "filter (\<lambda>doc. entityId doc = ''z'') sampleDocuments = []"
    by (simp add: sampleDocuments_def)
  from z[THEN conjunct1] none
  have cz: "isEntityCompliant (fixedClock 1000) ''z'' sampleDocuments 0 = (False, 0)"
    by (rule mp)
  have m: "settle (cacheService_get emptyReportCache (reportKey ''W'')) = None"
    by (rule emptyReportCache_miss)
  have f: "filter (\<lambda>v. vh_vendor v = ''W'' \<and> attachedDocs VEHICLE (vh_id v) sampleDocuments \<noteq> [])
             sampleVehicles = []"
    "length (filter (\<lambda>v. vh_vendor v = ''W'' \<and> attachedDocs VEHICLE (vh_id v) sampleDocuments = [])
             sampleVehicles) = 1"
    by (simp_all add: sampleVehicles_def sampleDocuments_attached)
  note r = z[THEN conjunct2, THEN conjunct1, rule_format, OF m]
  from r[THEN conjunct1]
  have c0: "compliant (r_vehicles (fst (getVendorComplianceReport (fixedClock 1000) sampleVehicles
      sampleDrivers sampleDocuments emptyReportCache ''W''))) = 0"
    unfolding f by simp
  from r[THEN conjunct2, THEN conjunct1]
  have n1: "1 \<le> nonCompliant (r_vehicles (fst (getVendorComplianceReport (fixedClock 1000)
      sampleVehicles sampleDrivers sampleDocuments emptyReportCache ''W'')))"
    unfolding f .
  have s: "getComplianceReports (fixedClock 1000) sampleVehicles sampleDrivers ''W'' =
     Success 200 ?rep"
    by (rule legacy_report_of_W)
  from z[THEN conjunct2, THEN conjunct2, rule_format, OF s]
  have l: "length (filter (\<lambda>v. vh_vendor v = ''W'' \<and> vh_documents v = noVehicleDocuments)
             sampleVehicles) \<le> nonCompliant (r_vehicles ?rep)"
    by (rule conjunct2[THEN conjunct1])
  show ?thesis
    by (intro conjI ca none cz m c0 n1 s l)
qed

section \<open>Registering a local vendor\<close>

lemma norm_samples:
  "norm ''Metropolis'' = ''metropolis''"
  "norm ''OtherCity'' = ''othercity''"
  "norm ''North'' = ''north''"
  "norm ''Atlantis'' = ''atlantis''"
  by code_simp+


lemma registerLocalVendor_city_mismatch:
  assumes "find (\<lambda>v. v_id v = b_parentVendorId body \<and> vendorType v = CITY) st = Some parent"
    and "isAuthorizedCreator creator parent (b_parentVendorId body)"
    and "norm (cityOf (b_operatingArea body)) = [] \<or> norm (cityOf (operatingArea parent)) = [] \<or>
         norm (cityOf (b_operatingArea body)) \<noteq> norm (cityOf (operatingArea parent))"
  shows "registerLocalVendor creator body newId st c =
    (Failure 400
      ''Local vendor operating area city must match the parent City vendor operating area city.'',
     st, c)"
  using assms by (simp add: registerLocalVendor_def Let_def)

lemma registerLocalVendor_created:
  assumes "statusCode (fst (registerLocalVendor creator body newId st c)) = 201"
  shows "\<exists>parent area parentArea.
     find (\<lambda>v. v_id v = b_parentVendorId body \<and> vendorType v = CITY) st = Some parent \<and>
     b_operatingArea body = Some area \<and> operatingArea parent = Some parentArea \<and>
     norm (cityOf (Some area)) = norm (cityOf (Some parentArea)) \<and>
     (\<exists>z \<in> set (localZonesOf area).
        norm z \<in> norm ` set (case zones parentArea of None \<Rightarrow> [] | Some zs \<Rightarrow> zs))"
proof (cases "find (\<lambda>v. v_id v = b_parentVendorId body \<and> vendorType v = CITY) st")
  case None
  with assms show ?thesis by (simp add: registerLocalVendor_def)
next
  case (Some parent)
  with assms have c: "norm (cityOf (b_operatingArea body)) = norm (cityOf (operatingArea parent))"
    by (auto simp: registerLocalVendor_def Let_def split: if_splits)
  from assms Some obtain area parentArea where
    a: "b_operatingArea body = Some area" "operatingArea parent = Some parentArea"
    by (auto simp: registerLocalVendor_def Let_def split: if_splits option.splits)
  from assms Some a have
    "isZoneValid (localZonesOf area) (case zones parentArea of None \<Rightarrow> [] | Some zs \<Rightarrow> zs)"
    by (auto simp: registerLocalVendor_def Let_def split: if_splits)
  then have "\<exists>z \<in> set (localZonesOf area).
        norm z \<in> norm ` set (case zones parentArea of None \<Rightarrow> [] | Some zs \<Rightarrow> zs)"
    by (simp add: isZoneValid_def list_ex_iff)
  with Some a c show ?thesis by simp
qed

text \<open>
  C9 on the store with the CITY vendor of Metropolis and its zone North, requests made by
  that vendor: a local vendor in OtherCity is rejected with the city-mismatch error, and one
  in Metropolis with the zone North is created, as the claim says; but a local vendor in
  Metropolis with the zones North and Atlantis is created as well, although Atlantis is
  not a zone of the parent: the handler asks that some zone match, not every zone.
\<close>

theorem registerLocalVendor_accepts_foreign_zone:
  "fst (registerLocalVendor metropolis (localRequest ''OtherCity'' [''North'']) ''n1''
          registerStore emptyCache) =
     Failure 400
      ''Local vendor operating area city must match the parent City vendor operating area city.'' \<and>
   statusCode (fst (registerLocalVendor metropolis (localRequest ''Metropolis'' [''North''])
          ''n1'' registerStore emptyCache)) = 201 \<and>
   statusCode (fst (registerLocalVendor metropolis
          (localRequest ''Metropolis'' [''North'', ''Atlantis'']) ''n1'' registerStore
          emptyCache)) = 201 \<and>
   map (\<lambda>v. (v_id v, map_option zones (operatingArea v)))
     (fst (snd (registerLocalVendor metropolis
          (localRequest ''Metropolis'' [''North'', ''Atlantis'']) ''n1'' registerStore
          emptyCache))) =
     [(''s1'', None), (''c1'', Some (Some [''North''])),
      (''n1'', Some (Some [''North'', ''Atlantis'']))] \<and>
   norm ''Atlantis'' \<notin> set (map norm [''North''])"
  by (simp add: registerLocalVendor_def registerStore_def metropolis_def localRequest_def
      mkVendor_def isAuthorizedCreator_def cityOf_def norm_samples localZonesOf_def
      isZoneValid_def Let_def)

end
